theory Spec2Isabelle
  imports
    Main
    "HOL-Library.Sublist"
    "HOL-Library.AList"
    "HOL-Library.Char_ord"
    "HOL-Library.List_Lexorder"
begin

text \<open>
  A model of \<open>main.py\<close>, the program that collects the application identifiers of the
  sitemap shards of Google Play: the name of a shard (\<open>get_url_file_name\<close>), the fetch
  of one shard into its record (\<open>fetch_app_ids_task\<close>), the run of the pending fetches
  (\<open>run_fetch_app_ids_tasks\<close>), the merge of the records (\<open>concat_all_app_ids\<close>) and
  the part of \<open>fetch_app_ids\<close> that skips the shards whose records exist and merges
  once. The file system is a value that the functions take and return; the network and the
  libraries are an environment.
\<close>

section \<open>Exceptions and the results of calls that may raise\<close>

text \<open>
  A Python call either returns a value or raises. A call that may raise has the result
  type \<open>exn + 'a\<close>: \<open>Inl e\<close> is the exception raised, \<open>Inr v\<close> the value returned.
  \<open>OSError\<close> stands for all of its subclasses (FileNotFoundError, IsADirectoryError,
  NotADirectoryError).
\<close>

datatype exn =
  ValueError | KeyError | IndexError | OSError | URLError | BadGzipFile | XMLSyntaxError
  | UnicodeDecodeError

text \<open>A list comprehension whose element expression may raise: the first exception ends it.\<close>

fun map_raising :: "('a \<Rightarrow> exn + 'b) \<Rightarrow> 'a list \<Rightarrow> exn + 'b list" where
  "map_raising f [] = Inr []"
| "map_raising f (x # xs) =
     (case f x of
        Inl e \<Rightarrow> Inl e
      | Inr y \<Rightarrow> (case map_raising f xs of Inl e \<Rightarrow> Inl e | Inr ys \<Rightarrow> Inr (y # ys)))"

text \<open>A list comprehension whose condition may raise.\<close>

fun filter_raising :: "('a \<Rightarrow> exn + bool) \<Rightarrow> 'a list \<Rightarrow> exn + 'a list" where
  "filter_raising p [] = Inr []"
| "filter_raising p (x # xs) =
     (case p x of
        Inl e \<Rightarrow> Inl e
      | Inr b \<Rightarrow>
          (case filter_raising p xs of
             Inl e \<Rightarrow> Inl e
           | Inr ys \<Rightarrow> Inr (if b then x # ys else ys)))"

section \<open>Strings\<close>

text \<open>
  Python strings are modelled as \<open>string\<close>. \<open>s.startswith(t)\<close> is \<open>prefix t s\<close>,
  \<open>s.endswith(t)\<close> is \<open>suffix t s\<close>, and \<open>sorted\<close> on strings is \<open>sort\<close> in the
  lexicographic order of the characters' codes.
\<close>

definition split_once :: "char \<Rightarrow> string \<Rightarrow> string \<times> string" where
  \<comment> \<open>\<open>s.split(c, 1)\<close> for a string that contains \<open>c\<close>: the text before the first \<open>c\<close>
      and the text after it.\<close>
  "split_once c s = (takeWhile (\<lambda>x. x \<noteq> c) s, drop 1 (dropWhile (\<lambda>x. x \<noteq> c) s))"

fun split_on :: "char \<Rightarrow> string \<Rightarrow> string list" where
  \<comment> \<open>\<open>s.split(c)\<close>\<close>
  "split_on c [] = [[]]"
| "split_on c (x # xs) =
     (if x = c then [] # split_on c xs
      else (case split_on c xs of [] \<Rightarrow> [[x]] | y # ys \<Rightarrow> (x # y) # ys))"

definition is_ascii :: "char \<Rightarrow> bool" where
  "is_ascii c = (of_char c < (128::nat))"

definition is_ascii_alpha :: "char \<Rightarrow> bool" where
  "is_ascii_alpha c =
     (let n = of_char c :: nat in (65 \<le> n \<and> n \<le> 90) \<or> (97 \<le> n \<and> n \<le> 122))"

definition is_ascii_digit :: "char \<Rightarrow> bool" where
  "is_ascii_digit c = (let n = of_char c :: nat in 48 \<le> n \<and> n \<le> 57)"

definition ascii_lower :: "char \<Rightarrow> char" where
  "ascii_lower c =
     (let n = of_char c :: nat in if 65 \<le> n \<and> n \<le> 90 then char_of (n + 32) else c)"

primrec newlines_from :: "bool \<Rightarrow> string \<Rightarrow> string" where
  \<comment> \<open>\<open>after_cr\<close>: the character before was a carriage return.\<close>
  "newlines_from after_cr [] = []"
| "newlines_from after_cr (c # cs) =
     (if c = CHR 0x0D then CHR 0x0A # newlines_from True cs
      else if c = CHR 0x0A \<and> after_cr then newlines_from False cs
      else c # newlines_from False cs)"

definition universal_newlines :: "string \<Rightarrow> string" where
  \<comment> \<open>What a file opened in text mode with the default \<open>newline=None\<close> gives for the
      text stored: a carriage return with the line feed after it, and a carriage return
      alone, are read as one line feed.\<close>
  "universal_newlines s = newlines_from False s"

section \<open>posixpath\<close>

definition os_path_join :: "string \<Rightarrow> string \<Rightarrow> string" where
  "os_path_join a b =
     (if prefix ''/'' b then b
      else if a = [] \<or> suffix ''/'' a then a @ b
      else a @ ''/'' @ b)"

definition os_path_basename :: "string \<Rightarrow> string" where
  \<comment> \<open>\<open>i = p.rfind('/') + 1; return p[i:]\<close>\<close>
  "os_path_basename p = rev (takeWhile (\<lambda>c. c \<noteq> CHR ''/'') (rev p))"

definition rstrip_sep :: "string \<Rightarrow> string" where
  \<comment> \<open>\<open>p.rstrip('/')\<close>\<close>
  "rstrip_sep p = rev (dropWhile (\<lambda>c. c = CHR ''/'') (rev p))"

definition strip_trailing_sep :: "string \<Rightarrow> string" where
  \<comment> \<open>\<open>if head and head != sep*len(head): head = head.rstrip(sep)\<close>\<close>
  "strip_trailing_sep h = (if rstrip_sep h \<noteq> [] then rstrip_sep h else h)"

definition os_path_dirname :: "string \<Rightarrow> string" where
  \<comment> \<open>\<open>i = p.rfind('/') + 1; head = p[:i]\<close>, then the trailing separators stripped\<close>
  "os_path_dirname p = strip_trailing_sep (rev (dropWhile (\<lambda>c. c \<noteq> CHR ''/'') (rev p)))"

section \<open>urllib.parse\<close>

text \<open>
  The library functions the program calls, after CPython 3.12's \<open>urllib/parse.py\<close>.
  Two validations of the network location that \<open>urlsplit\<close> performs (the check of a
  bracketed host as an IP literal, and the check of a non-ASCII location under NFKC
  normalisation) and percent-decoding (\<open>unquote\<close>) are parameters of the environment.
\<close>

record parse_result =
  pr_scheme :: string
  pr_netloc :: string
  pr_path :: string
  pr_params :: string
  pr_query :: string
  pr_fragment :: string

definition scheme_char :: "char \<Rightarrow> bool" where
  "scheme_char c = (is_ascii_alpha c \<or> is_ascii_digit c \<or> c \<in> set ''+-.'')"

definition split_scheme :: "string \<Rightarrow> string \<times> string" where
  \<comment> \<open>\<open>i = url.find(':')\<close>; the scheme is taken when \<open>i > 0\<close>, the first character is
      an ASCII letter and \<open>url[:i]\<close> holds scheme characters only.\<close>
  "split_scheme url =
     (let i = length (takeWhile (\<lambda>c. c \<noteq> CHR '':'') url) in
      if CHR '':'' \<in> set url \<and> 0 < i \<and> is_ascii_alpha (hd url) \<and> list_all scheme_char (take i url)
      then (map ascii_lower (take i url), drop (Suc i) url)
      else ([], url))"

definition splitnetloc :: "string \<Rightarrow> string \<times> string" where
  \<comment> \<open>\<open>_splitnetloc(url, 2)\<close>: the location ends at the first of \<open>/?#\<close>.\<close>
  "splitnetloc url =
     (let r = drop 2 url in
      (takeWhile (\<lambda>c. c \<notin> set ''/?#'') r, dropWhile (\<lambda>c. c \<notin> set ''/?#'') r))"

definition netloc_ok :: "(string \<Rightarrow> bool) \<Rightarrow> string \<Rightarrow> bool" where
  \<comment> \<open>\<open>_check_bracketed_host\<close> runs when the location has brackets, \<open>_checknetloc\<close>
      when it is not ASCII; \<open>check\<close> stands for both.\<close>
  "netloc_ok check netloc =
     ((CHR ''['' \<notin> set netloc \<and> list_all is_ascii netloc) \<or> check netloc)"

definition urlsplit :: "(string \<Rightarrow> bool) \<Rightarrow> string \<Rightarrow> exn + parse_result" where
  "urlsplit check url0 =
     (let url1 = filter (\<lambda>c. c \<notin> {CHR 0x09, CHR 0x0D, CHR 0x0A})
                   (dropWhile (\<lambda>c. of_char c \<le> (32::nat)) url0);
          (scheme, url2) = split_scheme url1;
          (netloc, url3) = (if take 2 url2 = ''//'' then splitnetloc url2 else ([], url2))
      in if (CHR ''['' \<in> set netloc) \<noteq> (CHR '']'' \<in> set netloc) then Inl ValueError
         else if \<not> netloc_ok check netloc then Inl ValueError
         else
           (let (url4, frag) = (if CHR ''#'' \<in> set url3 then split_once CHR ''#'' url3 else (url3, []));
                (url5, qry) = (if CHR ''?'' \<in> set url4 then split_once CHR ''?'' url4 else (url4, []))
            in Inr \<lparr>pr_scheme = scheme, pr_netloc = netloc, pr_path = url5, pr_params = [],
                    pr_query = qry, pr_fragment = frag\<rparr>))"

definition uses_params :: "string list" where
  "uses_params =
     ['''', ''ftp'', ''hdl'', ''prospero'', ''http'', ''imap'', ''https'', ''shttp'', ''rtsp'',
      ''rtsps'', ''rtspu'', ''sip'', ''sips'', ''mms'', ''sftp'', ''tel'']"

definition splitparams :: "string \<Rightarrow> string \<times> string" where
  \<comment> \<open>\<open>_splitparams\<close>: the parameters follow the first \<open>;\<close> of the last path segment.\<close>
  "splitparams url =
     (let seg = os_path_basename url; head = take (length url - length seg) url in
      if CHR '';'' \<in> set seg
      then (head @ takeWhile (\<lambda>c. c \<noteq> CHR '';'') seg, drop 1 (dropWhile (\<lambda>c. c \<noteq> CHR '';'') seg))
      else (url, []))"

definition urlparse :: "(string \<Rightarrow> bool) \<Rightarrow> string \<Rightarrow> exn + parse_result" where
  "urlparse check url =
     (case urlsplit check url of
        Inl e \<Rightarrow> Inl e
      | Inr r \<Rightarrow>
          if pr_scheme r \<in> set uses_params \<and> CHR '';'' \<in> set (pr_path r)
          then (let (p, ps) = splitparams (pr_path r) in Inr (r\<lparr>pr_path := p, pr_params := ps\<rparr>))
          else Inr r)"

definition plus_to_space :: "string \<Rightarrow> string" where
  \<comment> \<open>\<open>s.replace('+', ' ')\<close>\<close>
  "plus_to_space s = map (\<lambda>c. if c = CHR ''+'' then CHR '' '' else c) s"

definition parse_qsl :: "(string \<Rightarrow> string) \<Rightarrow> string \<Rightarrow> (string \<times> string) list" where
  \<comment> \<open>With the defaults of \<open>parse_qs\<close>: fields are separated by \<open>&\<close>; an empty field, a
      field with no \<open>=\<close> and a field with an empty value are skipped.\<close>
  "parse_qsl unq qs =
     map (\<lambda>nv. (unq (plus_to_space (fst (split_once CHR ''='' nv))),
                 unq (plus_to_space (snd (split_once CHR ''='' nv)))))
       (filter (\<lambda>nv. nv \<noteq> [] \<and> CHR ''='' \<in> set nv \<and> snd (split_once CHR ''='' nv) \<noteq> [])
          (split_on CHR ''&'' qs))"

definition parse_qs :: "(string \<Rightarrow> string) \<Rightarrow> string \<Rightarrow> (string \<rightharpoonup> string list)" where
  \<comment> \<open>The dict of the values of each name, in the order of the fields.\<close>
  "parse_qs unq qs =
     foldl (\<lambda>m (n, v). m(n \<mapsto> (case m n of None \<Rightarrow> [v] | Some vs \<Rightarrow> vs @ [v])))
       Map.empty (parse_qsl unq qs)"

section \<open>The file system\<close>

text \<open>
  A file system maps path strings to what is there: a regular file with its text, or a
  directory. Paths are compared as strings: \<open>.\<close>, \<open>..\<close>, links and repeated separators
  are not resolved; a directory is also found under its path with trailing separators.
  A file holds the characters written to it: on this platform the line separator is the
  line feed, so text is stored as it is written. Text read is decoded first, which fails
  on a file the codec of the locale does not accept, and its carriage returns are
  translated.
\<close>

datatype node = File string | Dir

type_synonym fs = "(string \<times> node) list"

definition os_path_isfile :: "fs \<Rightarrow> string \<Rightarrow> bool" where
  "os_path_isfile fs p = (case map_of fs p of Some (File c) \<Rightarrow> True | _ \<Rightarrow> False)"

definition os_path_isdir :: "fs \<Rightarrow> string \<Rightarrow> bool" where
  "os_path_isdir fs p = (map_of fs (strip_trailing_sep p) = Some Dir)"

definition os_path_exists :: "fs \<Rightarrow> string \<Rightarrow> bool" where
  "os_path_exists fs p = (os_path_isfile fs p \<or> os_path_isdir fs p)"

definition child_name :: "string \<Rightarrow> string \<Rightarrow> string option" where
  \<comment> \<open>The name \<open>n\<close> under which the path \<open>q\<close> is an entry of the directory \<open>d\<close>:
      \<open>q\<close> is \<open>os.path.join(d, n)\<close> for a single path component \<open>n\<close>.\<close>
  "child_name d q =
     (let pre = os_path_join d [] in
      if prefix pre q \<and> drop (length pre) q \<noteq> [] \<and> CHR ''/'' \<notin> set (drop (length pre) q)
      then Some (drop (length pre) q) else None)"

definition os_listdir :: "fs \<Rightarrow> string \<Rightarrow> exn + string list" where
  \<comment> \<open>The names of the entries of a directory, each once, in an order that carries no
      meaning (the order in which the file system happens to store them).\<close>
  "os_listdir fs d =
     (if os_path_isdir fs d then Inr (remdups (List.map_filter (\<lambda>(q, _). child_name d q) fs))
      else Inl OSError)"

definition os_remove :: "fs \<Rightarrow> string \<Rightarrow> fs" where
  \<comment> \<open>Called on regular files only (the caller checks \<open>os.path.isfile\<close> first).\<close>
  "os_remove fs p = AList.delete p fs"

definition open_w :: "fs \<Rightarrow> string \<Rightarrow> exn + fs" where
  \<comment> \<open>\<open>open(p, "w")\<close>: raises when \<open>p\<close> is a directory, is empty or ends in a separator, or
      when the directory that is to contain it does not exist (an empty directory part is
      the working directory); otherwise the file is created, or truncated, empty.\<close>
  "open_w fs p =
     (if p = [] \<or> suffix ''/'' p \<or> os_path_isdir fs p then Inl OSError
      else if os_path_dirname p \<noteq> [] \<and> \<not> os_path_isdir fs (os_path_dirname p) then Inl OSError
      else Inr (AList.update p (File []) fs))"

definition open_r_read :: "(string \<Rightarrow> bool) \<Rightarrow> fs \<Rightarrow> string \<Rightarrow> exn + string" where
  \<comment> \<open>\<open>open(p, "r")\<close> and \<open>read()\<close>, in text mode: the text of a regular file that
      the codec accepts (\<open>dec\<close>), with its newlines translated.\<close>
  "open_r_read dec fs p =
     (case map_of fs p of
        Some (File c) \<Rightarrow> if dec c then Inr (universal_newlines c) else Inl UnicodeDecodeError
      | _ \<Rightarrow> Inl OSError)"

section \<open>The environment\<close>

text \<open>
  What the program gets from outside the file system: the network, the libraries whose
  results are not computed here, the iteration order of a set of strings, and the faults
  of the disk while text is written.
\<close>

record env =
  urlopen_read :: "string \<Rightarrow> exn + string"
    \<comment> \<open>\<open>urllib.request.urlopen(url)\<close> and \<open>response.read()\<close>\<close>
  gzip_decompress :: "string \<Rightarrow> exn + string"
  etree_fromstring :: "string \<Rightarrow> exn + (string \<times> string) list list"
    \<comment> \<open>\<open>etree.fromstring(content)\<close>, as the attributes of the elements that
        \<open>tree.iter()\<close> yields, in document order\<close>
  set_order :: "string list \<Rightarrow> string list"
    \<comment> \<open>the order in which \<open>set(xs)\<close> is iterated\<close>
  unquote :: "string \<Rightarrow> string"
    \<comment> \<open>\<open>urllib.parse.unquote\<close>, as \<open>parse_qs\<close> calls it on names and values\<close>
  netloc_check :: "string \<Rightarrow> bool"
    \<comment> \<open>whether \<open>urlsplit\<close> accepts a network location that has brackets or is not
        ASCII\<close>
  decodable :: "string \<Rightarrow> bool"
    \<comment> \<open>whether the codec of the locale, with which a file opened with no \<open>encoding\<close>
        is read, decodes the text stored\<close>
  write_fault :: "string \<Rightarrow> string \<Rightarrow> string option"
    \<comment> \<open>\<open>write_fault p s = Some t\<close>: writing the text \<open>s\<close> to the file \<open>p\<close> raises
        OSError after \<open>t\<close> has reached the file; \<open>None\<close>: the write succeeds\<close>

definition set_order_ok :: "env \<Rightarrow> bool" where
  \<comment> \<open>A set holds each of its elements once.\<close>
  "set_order_ok env =
     (\<forall>xs. distinct (set_order env xs) \<and> set (set_order env xs) = set xs)"

section \<open>The program\<close>

definition get_url_file_name :: "env \<Rightarrow> string \<Rightarrow> exn + string" where
  "get_url_file_name env url =
     (case urlparse (netloc_check env) url of
        Inl e \<Rightarrow> Inl e
      | Inr r \<Rightarrow> Inr (os_path_basename (pr_path r)))"

definition app_id :: "env \<Rightarrow> string \<Rightarrow> exn + string" where
  \<comment> \<open>\<open>parse_qs(urlparse(i).query)["id"][0]\<close>\<close>
  "app_id env i =
     (case urlparse (netloc_check env) i of
        Inl e \<Rightarrow> Inl e
      | Inr r \<Rightarrow>
          (case parse_qs (unquote env) (pr_query r) ''id'' of
             None \<Rightarrow> Inl KeyError
           | Some [] \<Rightarrow> Inl IndexError
           | Some (v # _) \<Rightarrow> Inr v))"

definition hrefs_of :: "(string \<times> string) list list \<Rightarrow> string list" where
  \<comment> \<open>\<open>[element.attrib["href"] for element in tree.iter() if "href" in element.attrib]\<close>:
      the hyperlink references of the shard, one per occurrence, in document order\<close>
  "hrefs_of tree = List.map_filter (\<lambda>attrib. map_of attrib ''href'') tree"

definition gp_urls_of :: "env \<Rightarrow> (string \<times> string) list list \<Rightarrow> string list" where
  \<comment> \<open>\<open>gp_urls = set([...])\<close>, in the order in which the set is iterated\<close>
  "gp_urls_of env tree = set_order env (hrefs_of tree)"

definition app_ids_of :: "env \<Rightarrow> string list \<Rightarrow> exn + string list" where
  "app_ids_of env gp_urls =
     map_raising (app_id env) (filter (prefix ''https://play.google.com/store/apps'') gp_urls)"

definition record_text :: "string list \<Rightarrow> string" where
  \<comment> \<open>What \<open>f.writelines([i + "\n" for i in app_ids])\<close> writes.\<close>
  "record_text app_ids = concat (map (\<lambda>i. i @ [CHR 0x0A]) app_ids)"

definition write_text :: "env \<Rightarrow> fs \<Rightarrow> string \<Rightarrow> string \<Rightarrow> (exn + unit) \<times> fs" where
  \<comment> \<open>Writing to a file just opened for writing, and closing it.\<close>
  "write_text env fs p s =
     (case write_fault env p s of
        None \<Rightarrow> (Inr (), AList.update p (File s) fs)
      | Some t \<Rightarrow> (Inl OSError, AList.update p (File t) fs))"

definition fetch_app_ids_try :: "env \<Rightarrow> string \<Rightarrow> string \<Rightarrow> fs \<Rightarrow> (exn + unit) \<times> fs" where
  \<comment> \<open>The body of the \<open>try\<close> block of \<open>fetch_app_ids_task\<close>.\<close>
  "fetch_app_ids_try env url output_path fs =
     (case urlopen_read env url of
        Inl e \<Rightarrow> (Inl e, fs)
      | Inr raw \<Rightarrow>
     (case gzip_decompress env raw of
        Inl e \<Rightarrow> (Inl e, fs)
      | Inr content \<Rightarrow>
     (case etree_fromstring env content of
        Inl e \<Rightarrow> (Inl e, fs)
      | Inr tree \<Rightarrow>
     (case app_ids_of env (gp_urls_of env tree) of
        Inl e \<Rightarrow> (Inl e, fs)
      | Inr app_ids \<Rightarrow>
     (case open_w fs output_path of
        Inl e \<Rightarrow> (Inl e, fs)
      | Inr fs1 \<Rightarrow>
          write_text env fs1 output_path (record_text app_ids))))))"

definition fetch_app_ids_task :: "env \<Rightarrow> string \<Rightarrow> string \<Rightarrow> fs \<Rightarrow> (exn + bool) \<times> fs" where
  \<comment> \<open>The path is computed before the \<open>try\<close>: an exception of \<open>get_url_file_name\<close>
      leaves the task. Every exception of the \<open>try\<close> block is caught.\<close>
  "fetch_app_ids_task env url app_ids_dir fs =
     (case get_url_file_name env url of
        Inl e \<Rightarrow> (Inl e, fs)
      | Inr name \<Rightarrow>
          (let output_path = os_path_join app_ids_dir (name @ ''.txt'') in
           case fetch_app_ids_try env url output_path fs of
             (Inr u, fs1) \<Rightarrow> (Inr True, fs1)
           | (Inl e, fs1) \<Rightarrow>
               (Inr False,
                if os_path_isfile fs1 output_path then os_remove fs1 output_path else fs1)))"

fun run_tasks :: "env \<Rightarrow> string list \<Rightarrow> string \<Rightarrow> fs \<Rightarrow> (exn + bool) list \<times> fs" where
  \<comment> \<open>Every task of the list runs (leaving the executor's \<open>with\<close> block waits for all of
      them), here one after the other in the order of submission.\<close>
  "run_tasks env [] app_ids_dir fs = ([], fs)"
| "run_tasks env (url # urls) app_ids_dir fs =
     (let (r, fs1) = fetch_app_ids_task env url app_ids_dir fs;
          (rs, fs2) = run_tasks env urls app_ids_dir fs1
      in (r # rs, fs2))"

definition gather :: "(exn + bool) list \<Rightarrow> exn + bool list" where
  \<comment> \<open>\<open>asyncio.gather(*tasks)\<close>: the results in the order of the tasks, or an exception
      one of them raised.\<close>
  "gather rs = map_raising (\<lambda>r. r) rs"

datatype report = FailedTasks nat | AllTasksDone nat

definition run_fetch_app_ids_tasks ::
  "env \<Rightarrow> string list \<Rightarrow> string \<Rightarrow> fs \<Rightarrow> (exn + report) \<times> fs" where
  \<comment> \<open>The value is the line the function prints.\<close>
  "run_fetch_app_ids_tasks env urls app_ids_dir fs =
     (let (rs, fs1) = run_tasks env urls app_ids_dir fs in
      case gather rs of
        Inl e \<Rightarrow> (Inl e, fs1)
      | Inr task_results \<Rightarrow>
          (let failed_task_size = count_list task_results False in
           (Inr (if failed_task_size > 0 then FailedTasks failed_task_size
                 else AllTasksDone (length urls)), fs1)))"

definition is_record_name :: "string \<Rightarrow> bool" where
  \<comment> \<open>\<open>not i.startswith(".") and i.endswith(".txt")\<close>\<close>
  "is_record_name i = (\<not> prefix ''.'' i \<and> suffix ''.txt'' i)"

fun concat_loop :: "env \<Rightarrow> fs \<Rightarrow> string \<Rightarrow> string list \<Rightarrow> string \<Rightarrow> (exn + unit) \<times> fs" where
  \<comment> \<open>The \<open>for\<close> loop of \<open>concat_all_app_ids\<close>; \<open>acc\<close> is the text written so far, which
      is in the file when the \<open>async with\<close> block closes it, also on an exception.\<close>
  "concat_loop env fs app_ids_path [] acc = (Inr (), AList.update app_ids_path (File acc) fs)"
| "concat_loop env fs app_ids_path (file_path # rest) acc =
     (case open_r_read (decodable env) fs file_path of
        Inl e \<Rightarrow> (Inl e, AList.update app_ids_path (File acc) fs)
      | Inr c \<Rightarrow>
          (case write_fault env app_ids_path c of
             Some t \<Rightarrow> (Inl OSError, AList.update app_ids_path (File (acc @ t)) fs)
           | None \<Rightarrow> concat_loop env fs app_ids_path rest (acc @ c)))"

definition all_app_ids_files :: "fs \<Rightarrow> string \<Rightarrow> exn + string list" where
  "all_app_ids_files fs app_ids_dir =
     (case os_listdir fs app_ids_dir of
        Inl e \<Rightarrow> Inl e
      | Inr names \<Rightarrow> Inr (sort (map (os_path_join app_ids_dir) (filter is_record_name names))))"

definition concat_all_app_ids :: "env \<Rightarrow> string \<Rightarrow> string \<Rightarrow> fs \<Rightarrow> (exn + unit) \<times> fs" where
  "concat_all_app_ids env app_ids_dir app_ids_path fs =
     (case all_app_ids_files fs app_ids_dir of
        Inl e \<Rightarrow> (Inl e, fs)
      | Inr files \<Rightarrow>
          (case open_w fs app_ids_path of
             Inl e \<Rightarrow> (Inl e, fs)
           | Inr fs1 \<Rightarrow> concat_loop env fs1 app_ids_path files []))"

definition record_names :: "fs \<Rightarrow> string \<Rightarrow> exn + string list" where
  \<comment> \<open>\<open>set([i[:-len(".txt")] for i in os.listdir(app_ids_dir) if ...])\<close>\<close>
  "record_names fs app_ids_dir =
     (case os_listdir fs app_ids_dir of
        Inl e \<Rightarrow> Inl e
      | Inr names \<Rightarrow> Inr (map (\<lambda>i. take (length i - 4) i) (filter is_record_name names)))"

definition checking_records :: "env \<Rightarrow> string list \<Rightarrow> string \<Rightarrow> fs \<Rightarrow> exn + string list" where
  \<comment> \<open>Lines 90 to 93 of \<open>fetch_app_ids\<close>: the URLs left to fetch. \<open>sitemap_parts_url\<close>
      lists the elements of the set of URLs.\<close>
  "checking_records env sitemap_parts_url app_ids_dir fs =
     (if os_path_isdir fs app_ids_dir then
        (case record_names fs app_ids_dir of
           Inl e \<Rightarrow> Inl e
         | Inr names \<Rightarrow>
             filter_raising
               (\<lambda>i. case get_url_file_name env i of
                      Inl e \<Rightarrow> Inl e
                    | Inr n \<Rightarrow> Inr (n \<notin> set names))
               sitemap_parts_url)
      else Inr sitemap_parts_url)"

definition fetching_app_ids ::
  "env \<Rightarrow> string list \<Rightarrow> string \<Rightarrow> fs \<Rightarrow> (exn + report option) \<times> fs" where
  \<comment> \<open>Lines 95 and 96: the URLs left are fetched in sorted order, each once.\<close>
  "fetching_app_ids env urls app_ids_dir fs =
     (if length urls > 0 then
        (case run_fetch_app_ids_tasks env (sort (remdups urls)) app_ids_dir fs of
           (Inl e, fs1) \<Rightarrow> (Inl e, fs1)
         | (Inr r, fs1) \<Rightarrow> (Inr (Some r), fs1))
      else (Inr None, fs))"

definition combining_app_ids :: "env \<Rightarrow> string \<Rightarrow> string \<Rightarrow> fs \<Rightarrow> (exn + unit) \<times> fs" where
  \<comment> \<open>Lines 99 and 100: the merge runs unless the output is a regular file already.\<close>
  "combining_app_ids env app_ids_dir app_ids_path fs =
     (if \<not> os_path_isfile fs app_ids_path then concat_all_app_ids env app_ids_dir app_ids_path fs
      else (Inr (), fs))"

definition fetch_app_ids ::
  "env \<Rightarrow> string list \<Rightarrow> string \<Rightarrow> string \<Rightarrow> fs \<Rightarrow> (exn + report option) \<times> fs" where
  \<comment> \<open>\<open>fetch_app_ids\<close> from line 90 on, with the set of shard URLs loaded.\<close>
  "fetch_app_ids env sitemap_parts_url app_ids_dir app_ids_path fs =
     (case checking_records env sitemap_parts_url app_ids_dir fs of
        Inl e \<Rightarrow> (Inl e, fs)
      | Inr urls \<Rightarrow>
          (case fetching_app_ids env urls app_ids_dir fs of
             (Inl e, fs1) \<Rightarrow> (Inl e, fs1)
           | (Inr r, fs1) \<Rightarrow>
               (case combining_app_ids env app_ids_dir app_ids_path fs1 of
                  (Inl e, fs2) \<Rightarrow> (Inl e, fs2)
                | (Inr u, fs2) \<Rightarrow> (Inr r, fs2))))"

section \<open>Notions of the claims\<close>

definition spec_extraction_order :: "env \<Rightarrow> (string \<times> string) list list \<Rightarrow> exn + string list" where
  \<comment> \<open>The identifiers in the order in which the specification's steps extract them: every
      hyperlink reference, in the order of the document, those with the product-page
      prefix kept, the \<open>id\<close> of each.\<close>
  "spec_extraction_order env tree =
     map_raising (app_id env)
       (filter (prefix ''https://play.google.com/store/apps'') (hrefs_of tree))"

definition missing_id :: "env \<Rightarrow> string \<Rightarrow> bool" where
  \<comment> \<open>The hyperlink parses and its query has no \<open>id\<close> parameter.\<close>
  "missing_id env h =
     (case urlparse (netloc_check env) h of
        Inl e \<Rightarrow> False
      | Inr r \<Rightarrow> parse_qs (unquote env) (pr_query r) ''id'' = None)"





section \<open>A sample environment\<close>

text \<open>
  Four shards are served: \<open>a\<close> and \<open>.h\<close> hold three product hyperlinks, one of them twice;
  \<open>m\<close> holds a product hyperlink with no \<open>id\<close>; the payload of \<open>c\<close> does not decompress.
  Every other URL is unreachable. The disk fails while the record of the shard \<open>full\<close> is
  written. The codec of the locale decodes ASCII text.
\<close>

definition demo_tree_a :: "(string \<times> string) list list" where
  "demo_tree_a =
     [[],
      [(''rel'', ''alternate''), (''href'', ''https://play.google.com/store/apps/details?id=b.app'')],
      [(''href'', ''https://play.google.com/store/apps/details?id=a.app'')],
      [(''href'', ''https://play.google.com/store/apps/details?id=b.app'')],
      [(''href'', ''https://play.google.com/store/books'')]]"

definition demo_tree_m :: "(string \<times> string) list list" where
  "demo_tree_m =
     [[(''href'', ''https://play.google.com/store/apps/details?id=c.app'')],
      [(''href'', ''https://play.google.com/store/apps/details?hl=en'')]]"

definition demo_env :: env where
  "demo_env =
     \<lparr>urlopen_read =
        (\<lambda>u. if u = ''https://play.google.com/sitemaps/a.xml.gz'' then Inr ''gz:a''
              else if u = ''https://play.google.com/sitemaps/.h.xml.gz'' then Inr ''gz:a''
              else if u = ''https://play.google.com/sitemaps/full.xml.gz'' then Inr ''gz:a''
              else if u = ''https://play.google.com/sitemaps/m.xml.gz'' then Inr ''gz:m''
              else if u = ''https://play.google.com/sitemaps/c.xml.gz'' then Inr ''gz:c''
              else Inl URLError),
      gzip_decompress =
        (\<lambda>b. if b = ''gz:a'' then Inr ''xml:a''
              else if b = ''gz:m'' then Inr ''xml:m''
              else Inl BadGzipFile),
      etree_fromstring =
        (\<lambda>c. if c = ''xml:a'' then Inr demo_tree_a
              else if c = ''xml:m'' then Inr demo_tree_m
              else Inl XMLSyntaxError),
      set_order = (\<lambda>xs. sort (remdups xs)),
      unquote = (\<lambda>s. s),
      netloc_check = (\<lambda>n. False),
      decodable = (\<lambda>s. list_all is_ascii s),
      write_fault = (\<lambda>p s. if p = ''cache/full.xml.gz.txt'' then Some (take 3 s) else None)\<rparr>"


section \<open>Paths and directory listings\<close>

lemma join_nil: "os_path_join d [] = (if d = [] \<or> suffix ''/'' d then d else d @ ''/'')"
  by (simp add: os_path_join_def)

lemma join_append: "\<not> prefix ''/'' n \<Longrightarrow> os_path_join d n = os_path_join d [] @ n"
  by (simp add: os_path_join_def)

lemma no_sep_not_prefix: "CHR ''/'' \<notin> set n \<Longrightarrow> \<not> prefix ''/'' n"
  by (cases n) auto

lemma join_inj: "\<not> prefix ''/'' n \<Longrightarrow> \<not> prefix ''/'' m \<Longrightarrow> os_path_join d n = os_path_join d m \<Longrightarrow> n = m"
  by (simp add: os_path_join_def split: if_splits)

lemma length_rstrip_sep: "length (rstrip_sep p) \<le> length p"
  by (simp add: rstrip_sep_def) (metis length_dropWhile_le length_rev)

lemma length_strip_trailing_sep: "length (strip_trailing_sep p) \<le> length p"
  by (simp add: strip_trailing_sep_def length_rstrip_sep)

lemma length_join: "\<not> prefix ''/'' n \<Longrightarrow> length d + length n \<le> length (os_path_join d n)"
  by (simp add: os_path_join_def)

lemma join_neq_strip: "n \<noteq> [] \<Longrightarrow> \<not> prefix ''/'' n \<Longrightarrow> os_path_join d n \<noteq> strip_trailing_sep d"
proof
  assume n: "n \<noteq> []" "\<not> prefix ''/'' n" and eq: "os_path_join d n = strip_trailing_sep d"
  have "length d + length n \<le> length (strip_trailing_sep d)"
    using length_join [OF n(2), of d] eq by simp
  with length_strip_trailing_sep [of d] n(1) show False by (cases n) simp_all
qed

lemma strip_trailing_sep_id: "p \<noteq> [] \<Longrightarrow> last p \<noteq> CHR ''/'' \<Longrightarrow> strip_trailing_sep p = p"
  by (cases p rule: rev_cases) (simp_all add: strip_trailing_sep_def rstrip_sep_def)

lemma basename_no_sep: "CHR ''/'' \<notin> set (os_path_basename p)"
  by (auto simp: os_path_basename_def dest: set_takeWhileD)

lemma child_name_iff:
  "child_name d q = Some n \<longleftrightarrow> n \<noteq> [] \<and> CHR ''/'' \<notin> set n \<and> q = os_path_join d [] @ n"
  by (auto simp: child_name_def Let_def prefix_def)

lemma child_name_join:
  "child_name d q = Some n \<longleftrightarrow> n \<noteq> [] \<and> CHR ''/'' \<notin> set n \<and> q = os_path_join d n"
proof (cases "CHR ''/'' \<in> set n")
  case True
  then show ?thesis by (simp add: child_name_iff)
next
  case False
  then have "os_path_join d n = os_path_join d [] @ n"
    by (intro join_append no_sep_not_prefix)
  then show ?thesis by (simp only: child_name_iff)
qed

lemma set_map_filter: "set (List.map_filter f xs) = {y. \<exists>x \<in> set xs. f x = Some y}"
  by (induction xs) (auto simp: List.map_filter_simps split: option.splits)

lemma listdir_names:
  assumes "os_listdir fs d = Inr names"
  shows "set names = {n. n \<noteq> [] \<and> CHR ''/'' \<notin> set n \<and> os_path_join d n \<in> fst ` set fs}"
    and "distinct names" and "os_path_isdir fs d"
proof -
  from assms have dir: "os_path_isdir fs d"
    and names: "names = remdups (List.map_filter (\<lambda>(q, _). child_name d q) fs)"
    by (auto simp: os_listdir_def split: if_splits)
  show "os_path_isdir fs d" by (rule dir)
  show "distinct names" by (simp add: names)
  have "n \<in> set names \<longleftrightarrow> n \<noteq> [] \<and> CHR ''/'' \<notin> set n \<and> os_path_join d n \<in> fst ` set fs" for n
  proof -
    have "n \<in> set names \<longleftrightarrow> (\<exists>x \<in> set fs. child_name d (fst x) = Some n)"
      by (simp add: names set_map_filter split: prod.splits) force
    also have "\<dots> \<longleftrightarrow> n \<noteq> [] \<and> CHR ''/'' \<notin> set n \<and> os_path_join d n \<in> fst ` set fs"
      unfolding child_name_join by force
    finally show ?thesis .
  qed
  then show "set names = {n. n \<noteq> [] \<and> CHR ''/'' \<notin> set n \<and> os_path_join d n \<in> fst ` set fs}"
    by blast
qed

lemma prefix_append_le: "(p @ a \<le> p @ b) = (a \<le> (b :: string))"
  by (induction p) simp_all

lemma insort_map_append:
  "insort (p @ x) (map ((@) p) xs) = map ((@) p) (insort (x :: string) xs)"
  by (induction xs) (simp_all add: prefix_append_le)

lemma sort_map_append: "sort (map ((@) p) xs) = map ((@) p) (sort (xs :: string list))"
  by (induction xs) (simp_all add: insort_map_append)

section \<open>The effect of one fetch task\<close>

lemma open_w_Inr:
  assumes "open_w fs p = Inr fs0"
  shows "fs0 = AList.update p (File []) fs" and "map_of fs p \<noteq> Some Dir" and "p \<noteq> []"
proof -
  from assms have p: "p \<noteq> []" "\<not> suffix ''/'' p" "\<not> os_path_isdir fs p"
    and fs0: "fs0 = AList.update p (File []) fs"
    by (auto simp: open_w_def split: if_splits)
  from p(1,2) have "last p \<noteq> CHR ''/''"
    by (cases p rule: rev_cases) (auto simp: suffix_def)
  with p(1) have "strip_trailing_sep p = p" by (rule strip_trailing_sep_id)
  with p(3) show "map_of fs p \<noteq> Some Dir" by (simp add: os_path_isdir_def)
  show "fs0 = AList.update p (File []) fs" by (rule fs0)
  show "p \<noteq> []" by (rule p(1))
qed

lemma try_cases:
  assumes "fetch_app_ids_try env url p fs = (r, fs1)"
  shows "(\<exists>e. r = Inl e \<and> fs1 = fs) \<or>
         (\<exists>raw content tree app_ids fs0.
            urlopen_read env url = Inr raw \<and> gzip_decompress env raw = Inr content \<and>
            etree_fromstring env content = Inr tree \<and>
            app_ids_of env (gp_urls_of env tree) = Inr app_ids \<and>
            open_w fs p = Inr fs0 \<and>
            write_text env fs0 p (record_text app_ids) = (r, fs1))"
  using assms by (auto simp: fetch_app_ids_try_def split: sum.splits)

lemma write_text_cases:
  assumes "write_text env fs0 p s = (r, fs1)"
  shows "(r = Inr () \<and> fs1 = AList.update p (File s) fs0) \<or>
         (\<exists>t. r = Inl OSError \<and> fs1 = AList.update p (File t) fs0)"
  using assms by (auto simp: write_text_def split: option.splits)

lemma task_success:
  assumes name: "get_url_file_name env url = Inr name"
    and run: "fetch_app_ids_task env url d fs = (Inr True, fs')"
  shows "\<exists>raw content tree app_ids.
            urlopen_read env url = Inr raw \<and> gzip_decompress env raw = Inr content \<and>
            etree_fromstring env content = Inr tree \<and>
            app_ids_of env (gp_urls_of env tree) = Inr app_ids \<and>
            fs' = AList.update (os_path_join d (name @ ''.txt''))
                    (File (record_text app_ids)) fs"
proof -
  let ?p = "os_path_join d (name @ ''.txt'')"
  obtain r fs1 where t: "fetch_app_ids_try env url ?p fs = (r, fs1)" by force
  from run name t have r: "r = Inr ()" and fs': "fs' = fs1"
    by (auto simp: fetch_app_ids_task_def Let_def split: sum.splits)
  from try_cases [OF t] r obtain raw content tree app_ids fs0 where
    steps: "urlopen_read env url = Inr raw" "gzip_decompress env raw = Inr content"
      "etree_fromstring env content = Inr tree" "app_ids_of env (gp_urls_of env tree) = Inr app_ids"
    and op: "open_w fs ?p = Inr fs0"
    and wr: "write_text env fs0 ?p (record_text app_ids) = (r, fs1)"
    by auto
  from write_text_cases [OF wr] r
  have "fs1 = AList.update ?p (File (record_text app_ids)) fs0" by auto
  with open_w_Inr(1) [OF op] fs'
  have "fs' = AList.update ?p (File (record_text app_ids)) fs" by simp
  with steps show ?thesis by blast
qed

lemma task_result:
  assumes name: "get_url_file_name env url = Inr name"
  shows "fst (fetch_app_ids_task env url d fs) = Inr True \<or> fst (fetch_app_ids_task env url d fs) = Inr False"
  using name by (auto simp: fetch_app_ids_task_def Let_def split: sum.splits prod.splits)

lemma isfile_iff: "os_path_isfile fs p \<longleftrightarrow> (\<exists>c. map_of fs p = Some (File c))"
  by (auto simp: os_path_isfile_def split: option.splits node.splits)

lemma task_failure:
  assumes name: "get_url_file_name env url = Inr name"
    and run: "fetch_app_ids_task env url d fs = (Inr False, fs')"
  shows "map_of fs' =
           (map_of fs)(os_path_join d (name @ ''.txt'') :=
              (if map_of fs (os_path_join d (name @ ''.txt'')) = Some Dir then Some Dir else None))"
proof -
  let ?p = "os_path_join d (name @ ''.txt'')"
  obtain r fs1 where t: "fetch_app_ids_try env url ?p fs = (r, fs1)" by force
  from run name t obtain e where r: "r = Inl e"
    and fs': "fs' = (if os_path_isfile fs1 ?p then os_remove fs1 ?p else fs1)"
    by (auto simp: fetch_app_ids_task_def Let_def split: sum.splits)
  from try_cases [OF t] show ?thesis
  proof (elim disjE exE conjE)
    fix e' assume "fs1 = fs"
    with fs' show ?thesis
      by (auto simp: os_remove_def delete_conv' isfile_iff fun_eq_iff)
         (metis node.exhaust option.exhaust)
  next
    fix raw content tree app_ids fs0
    assume op: "open_w fs ?p = Inr fs0"
      and wr: "write_text env fs0 ?p (record_text app_ids) = (r, fs1)"
    from write_text_cases [OF wr] r obtain t where "fs1 = AList.update ?p (File t) fs0" by auto
    with open_w_Inr(1) [OF op] have fs1: "fs1 = AList.update ?p (File t) fs" by simp
    then have "os_path_isfile fs1 ?p" by (simp add: isfile_iff update_conv')
    with fs' fs1 have "map_of fs' = (map_of fs)(?p := None)"
      by (simp add: os_remove_def delete_conv' update_conv')
    with open_w_Inr(2) [OF op] show ?thesis by simp
  qed
qed

section \<open>The name of a shard\<close>

lemma basename_split:
  "\<exists>h. p = h @ os_path_basename p \<and> (h = [] \<or> last h = CHR ''/'')"
proof -
  let ?h = "rev (dropWhile (\<lambda>c. c \<noteq> CHR ''/'') (rev p))"
  have "rev p = takeWhile (\<lambda>c. c \<noteq> CHR ''/'') (rev p) @ dropWhile (\<lambda>c. c \<noteq> CHR ''/'') (rev p)"
    by simp
  then have "rev (rev p) = ?h @ os_path_basename p"
    unfolding os_path_basename_def by (metis rev_append)
  then have 1: "p = ?h @ os_path_basename p" by simp
  have 2: "?h = [] \<or> last ?h = CHR ''/''"
    using hd_dropWhile [of "\<lambda>c. c \<noteq> CHR ''/''" "rev p"] by (auto simp: last_rev)
  from 1 2 show ?thesis by blast
qed

lemma split_scheme_subset: "set (snd (split_scheme u)) \<subseteq> set u"
  by (auto simp: split_scheme_def Let_def dest: in_set_dropD)

lemma splitnetloc_subset: "set (fst (splitnetloc u)) \<subseteq> set u"
  by (auto simp: splitnetloc_def Let_def dest: set_takeWhileD in_set_dropD)

lemma urlsplit_total:
  assumes "CHR ''['' \<notin> set url" "CHR '']'' \<notin> set url" "list_all is_ascii url"
  shows "\<exists>r. urlsplit check url = Inr r"
proof -
  let ?url1 = "filter (\<lambda>c. c \<notin> {CHR 0x09, CHR 0x0D, CHR 0x0A}) (dropWhile (\<lambda>c. of_char c \<le> (32::nat)) url)"
  let ?url2 = "snd (split_scheme ?url1)"
  let ?netloc = "fst (if take 2 ?url2 = ''//'' then splitnetloc ?url2 else ([], ?url2))"
  have "set ?url1 \<subseteq> set url" by (auto dest: set_dropWhileD)
  with split_scheme_subset [of ?url1] have "set ?url2 \<subseteq> set url" by blast
  with splitnetloc_subset [of ?url2] have sub: "set ?netloc \<subseteq> set url" by auto
  with assms have "CHR ''['' \<notin> set ?netloc" "CHR '']'' \<notin> set ?netloc" "list_all is_ascii ?netloc"
    by (auto simp: list_all_iff)
  then show ?thesis
    unfolding urlsplit_def Let_def case_prod_beta netloc_ok_def by simp
qed

lemma urlsplit_error: "urlsplit check url = Inl e \<Longrightarrow> e = ValueError"
  unfolding urlsplit_def Let_def case_prod_beta by (simp split: if_splits)

lemma urlparse_Inl: "urlparse check url = Inl e \<longleftrightarrow> urlsplit check url = Inl e"
  unfolding urlparse_def Let_def case_prod_beta by (simp split: sum.splits)


text \<open>
  Claim C7, amended. \<open>get_url_file_name\<close> is a function of the URL (and of the library's
  validation of network locations) alone. When \<open>urlparse\<close> accepts the URL, the result is
  the final segment of the URL's path: the text after the last separator of the path, with
  no separator in it; it is the empty string when the path is empty or ends in a separator,
  so a URL with no path segment is not a failure. The function raises only when
  \<open>urlsplit\<close> rejects the network location with a ValueError, and it returns a name for
  every ASCII URL without square brackets.
\<close>

theorem get_url_file_name_final_segment:
  "(\<forall>r. urlparse (netloc_check env) url = Inr r \<longrightarrow>
      get_url_file_name env url = Inr (os_path_basename (pr_path r)) \<and>
      CHR ''/'' \<notin> set (os_path_basename (pr_path r)) \<and>
      (\<exists>h. pr_path r = h @ os_path_basename (pr_path r) \<and> (h = [] \<or> last h = CHR ''/''))) \<and>
   (\<forall>e. get_url_file_name env url = Inl e \<longrightarrow>
      e = ValueError \<and> urlsplit (netloc_check env) url = Inl ValueError) \<and>
   (CHR ''['' \<notin> set url \<and> CHR '']'' \<notin> set url \<and> list_all is_ascii url \<longrightarrow>
      (\<exists>k. get_url_file_name env url = Inr k))"
proof (intro conjI allI impI)
  fix r assume "urlparse (netloc_check env) url = Inr r"
  then show "get_url_file_name env url = Inr (os_path_basename (pr_path r))"
    by (simp add: get_url_file_name_def)
  show "CHR ''/'' \<notin> set (os_path_basename (pr_path r))" by (rule basename_no_sep)
  show "\<exists>h. pr_path r = h @ os_path_basename (pr_path r) \<and> (h = [] \<or> last h = CHR ''/'')"
    by (rule basename_split)
next
  fix e assume "get_url_file_name env url = Inl e"
  then have "urlparse (netloc_check env) url = Inl e"
    by (simp add: get_url_file_name_def split: sum.splits)
  then have e: "urlsplit (netloc_check env) url = Inl e" by (simp add: urlparse_Inl)
  then show "e = ValueError" by (rule urlsplit_error)
  with e show "urlsplit (netloc_check env) url = Inl ValueError" by simp
next
  assume "CHR ''['' \<notin> set url \<and> CHR '']'' \<notin> set url \<and> list_all is_ascii url"
  then obtain r where "urlsplit (netloc_check env) url = Inr r"
    using urlsplit_total [of url "netloc_check env"] by blast
  then show "\<exists>k. get_url_file_name env url = Inr k"
    unfolding get_url_file_name_def urlparse_def Let_def case_prod_beta by simp
qed


text \<open>The theorem at two shard URLs, one of them ending in a separator.\<close>

theorem get_url_file_name_final_segment_witness:
  "get_url_file_name demo_env ''https://play.google.com/sitemaps/a.xml.gz'' = Inr ''a.xml.gz'' \<and>
   get_url_file_name demo_env ''https://play.google.com/sitemaps/'' = Inr []"
proof -
  have 1: "urlparse (netloc_check demo_env) ''https://play.google.com/sitemaps/a.xml.gz'' =
      Inr \<lparr>pr_scheme = ''https'', pr_netloc = ''play.google.com'', pr_path = ''/sitemaps/a.xml.gz'',
           pr_params = [], pr_query = [], pr_fragment = []\<rparr>"
    by code_simp
  have 2: "urlparse (netloc_check demo_env) ''https://play.google.com/sitemaps/'' =
      Inr \<lparr>pr_scheme = ''https'', pr_netloc = ''play.google.com'', pr_path = ''/sitemaps/'',
           pr_params = [], pr_query = [], pr_fragment = []\<rparr>"
    by code_simp
  have 3: "os_path_basename ''/sitemaps/a.xml.gz'' = ''a.xml.gz''" "os_path_basename ''/sitemaps/'' = []"
    by (simp_all add: os_path_basename_def)
  show ?thesis
    using get_url_file_name_final_segment [of demo_env "''https://play.google.com/sitemaps/a.xml.gz''"]
      get_url_file_name_final_segment [of demo_env "''https://play.google.com/sitemaps/''"] 1 2 3
    by simp
qed


text \<open>
  Claim C7 as stated fails: a URL with no path segment gets the empty name and no error,
  and a URL with a path segment but an unbalanced bracket in its network location raises.
\<close>

theorem get_url_file_name_no_path_counterexample:
  "get_url_file_name demo_env ''https://play.google.com'' = Inr [] \<and>
   get_url_file_name demo_env ''http://[x/a.xml.gz'' = Inl ValueError"
  by code_simp

section \<open>The record of a shard\<close>

lemma map_raising_Inl:
  "x \<in> set xs \<Longrightarrow> f x = Inl e \<Longrightarrow> \<exists>e'. map_raising f xs = Inl e'"
  by (induction xs) (auto split: sum.splits)

lemma map_raising_Inr:
  "map_raising f xs = Inr ys \<Longrightarrow> list_all2 (\<lambda>x y. f x = Inr y) xs ys"
  by (induction xs arbitrary: ys) (auto split: sum.splits)

lemma missing_id_KeyError: "missing_id env h \<Longrightarrow> app_id env h = Inl KeyError"
  by (auto simp: missing_id_def app_id_def split: sum.splits)

lemma task_other_paths:
  assumes name: "get_url_file_name env url = Inr name"
    and run: "fetch_app_ids_task env url d fs = (r, fs')"
    and p: "p \<noteq> os_path_join d (name @ ''.txt'')"
  shows "map_of fs' p = map_of fs p"
proof -
  from task_result [OF name, of d fs] run have "r = Inr True \<or> r = Inr False" by simp
  then show ?thesis
  proof
    assume "r = Inr True"
    with task_success [OF name, of d fs fs'] run p show ?thesis
      by (auto simp: update_conv')
  next
    assume "r = Inr False"
    with task_failure [OF name, of d fs fs'] run p show ?thesis by simp
  qed
qed

lemma demo_set_order_ok: "set_order_ok demo_env"
  by (simp add: set_order_ok_def demo_env_def)


text \<open>
  Claim C1, amended. For every shard URL that \<open>urlparse\<close> accepts and every cache
  directory, \<open>fetch_app_ids_task\<close> returns \<open>False\<close> or \<open>True\<close>. After it has returned
  \<open>False\<close>, whatever made it fail, no regular file is at the target path of the shard:
  a file there, partial or left by an earlier run, has been removed, and the path does not
  exist unless a directory already occupied it, which is left in place. After it has
  returned \<open>True\<close> the target path holds the persisted record. Every other path is as it
  was.
\<close>

theorem fetch_app_ids_task_leaves_no_file:
  assumes name: "get_url_file_name env url = Inr name"
    and run: "fetch_app_ids_task env url d fs = (r, fs')"
  shows "(r = Inr False \<or> r = Inr True) \<and>
         (r = Inr False \<longrightarrow>
            \<not> os_path_isfile fs' (os_path_join d (name @ ''.txt'')) \<and>
            map_of fs' (os_path_join d (name @ ''.txt'')) =
              (if map_of fs (os_path_join d (name @ ''.txt'')) = Some Dir then Some Dir else None)) \<and>
         (r = Inr True \<longrightarrow>
            (\<exists>app_ids. map_of fs' (os_path_join d (name @ ''.txt'')) = Some (File (record_text app_ids)))) \<and>
         (\<forall>p. p \<noteq> os_path_join d (name @ ''.txt'') \<longrightarrow> map_of fs' p = map_of fs p)"
proof (intro conjI impI allI)
  from task_result [OF name, of d fs] run show "r = Inr False \<or> r = Inr True" by auto
next
  assume "r = Inr False"
  with run have "fetch_app_ids_task env url d fs = (Inr False, fs')" by simp
  from task_failure [OF name this]
  show "map_of fs' (os_path_join d (name @ ''.txt'')) =
      (if map_of fs (os_path_join d (name @ ''.txt'')) = Some Dir then Some Dir else None)"
    by simp
  then show "\<not> os_path_isfile fs' (os_path_join d (name @ ''.txt''))"
    by (simp add: isfile_iff)
next
  assume "r = Inr True"
  with run have "fetch_app_ids_task env url d fs = (Inr True, fs')" by simp
  from task_success [OF name this]
  show "\<exists>app_ids. map_of fs' (os_path_join d (name @ ''.txt'')) = Some (File (record_text app_ids))"
    by (auto simp: update_conv')
next
  fix p assume "p \<noteq> os_path_join d (name @ ''.txt'')"
  with task_other_paths [OF name run] show "map_of fs' p = map_of fs p" by simp
qed


text \<open>
  The theorem where the disk fails while the record is written, over a record left by an
  earlier run: the partial file is removed.
\<close>

theorem fetch_app_ids_task_leaves_no_file_witness:
  "get_url_file_name demo_env ''https://play.google.com/sitemaps/full.xml.gz'' = Inr ''full.xml.gz'' \<and>
   write_fault demo_env ''cache/full.xml.gz.txt'' (record_text [''a.app'', ''b.app'']) = Some ''a.a'' \<and>
   fetch_app_ids_task demo_env ''https://play.google.com/sitemaps/full.xml.gz'' ''cache''
     [(''cache'', Dir), (''cache/full.xml.gz.txt'', File ''old'')] = (Inr False, [(''cache'', Dir)]) \<and>
   \<not> os_path_isfile [(''cache'', Dir)] (os_path_join ''cache'' (''full.xml.gz'' @ ''.txt''))"
proof -
  have 1: "get_url_file_name demo_env ''https://play.google.com/sitemaps/full.xml.gz'' = Inr ''full.xml.gz''"
    by code_simp
  have 2: "fetch_app_ids_task demo_env ''https://play.google.com/sitemaps/full.xml.gz'' ''cache''
     [(''cache'', Dir), (''cache/full.xml.gz.txt'', File ''old'')] = (Inr False, [(''cache'', Dir)])"
    by code_simp
  have 3: "write_fault demo_env ''cache/full.xml.gz.txt'' (record_text [''a.app'', ''b.app'']) = Some ''a.a''"
    by code_simp
  from fetch_app_ids_task_leaves_no_file [OF 1 2]
  have "\<not> os_path_isfile [(''cache'', Dir)] (os_path_join ''cache'' (''full.xml.gz'' @ ''.txt''))"
    by blast
  with 1 2 3 show ?thesis by blast
qed


text \<open>
  Claim C1 as stated fails where a directory occupies the target path: the task returns
  \<open>False\<close> and the path still exists.
\<close>

theorem fetch_app_ids_task_directory_counterexample:
  "fetch_app_ids_task demo_env ''https://play.google.com/sitemaps/a.xml.gz'' ''cache''
     [(''cache'', Dir), (''cache/a.xml.gz.txt'', Dir)] =
     (Inr False, [(''cache'', Dir), (''cache/a.xml.gz.txt'', Dir)]) \<and>
   os_path_join ''cache'' ''a.xml.gz.txt'' = ''cache/a.xml.gz.txt'' \<and>
   os_path_exists [(''cache'', Dir), (''cache/a.xml.gz.txt'', Dir)] ''cache/a.xml.gz.txt''"
  by code_simp


text \<open>
  Claim C5, amended. The persisted record of a shard holds one line for each distinct
  hyperlink with the product-page prefix (a hyperlink that occurs several times in the
  shard gives one line): the identifier of the hyperlink followed by a newline. The lines
  are in the order in which the set of the shard's hyperlinks is iterated, which need not
  be the order of the document.
\<close>

theorem shard_record_order:
  assumes ok: "set_order_ok env"
    and name: "get_url_file_name env url = Inr name"
    and shard: "urlopen_read env url = Inr raw" "gzip_decompress env raw = Inr content"
      "etree_fromstring env content = Inr tree"
    and run: "fetch_app_ids_task env url d fs = (Inr True, fs')"
  shows "\<exists>app_ids.
           map_of fs' (os_path_join d (name @ ''.txt'')) = Some (File (record_text app_ids)) \<and>
           list_all2 (\<lambda>h i. app_id env h = Inr i)
             (filter (prefix ''https://play.google.com/store/apps'') (gp_urls_of env tree)) app_ids \<and>
           distinct (gp_urls_of env tree) \<and>
           set (gp_urls_of env tree) = set (hrefs_of tree)"
proof -
  from task_success [OF name run] shard obtain app_ids where
    ids: "app_ids_of env (gp_urls_of env tree) = Inr app_ids"
    and fs': "fs' = AList.update (os_path_join d (name @ ''.txt'')) (File (record_text app_ids)) fs"
    by auto
  from ids have "list_all2 (\<lambda>h i. app_id env h = Inr i)
      (filter (prefix ''https://play.google.com/store/apps'') (gp_urls_of env tree)) app_ids"
    unfolding app_ids_of_def by (rule map_raising_Inr)
  moreover from fs' have "map_of fs' (os_path_join d (name @ ''.txt'')) = Some (File (record_text app_ids))"
    by (simp add: update_conv')
  moreover from ok have "distinct (gp_urls_of env tree)" "set (gp_urls_of env tree) = set (hrefs_of tree)"
    by (simp_all add: set_order_ok_def gp_urls_of_def)
  ultimately show ?thesis by blast
qed



text \<open>The theorem at the sample shard \<open>a\<close>.\<close>

theorem shard_record_order_witness:
  "set_order_ok demo_env \<and>
   fetch_app_ids_task demo_env ''https://play.google.com/sitemaps/a.xml.gz'' ''cache'' [(''cache'', Dir)] =
     (Inr True, [(''cache'', Dir), (''cache/a.xml.gz.txt'', File (record_text [''a.app'', ''b.app'']))]) \<and>
   (\<exists>app_ids.
      map_of [(''cache'', Dir), (''cache/a.xml.gz.txt'', File (record_text [''a.app'', ''b.app'']))]
        (os_path_join ''cache'' (''a.xml.gz'' @ ''.txt'')) = Some (File (record_text app_ids)) \<and>
      list_all2 (\<lambda>h i. app_id demo_env h = Inr i)
        (filter (prefix ''https://play.google.com/store/apps'') (gp_urls_of demo_env demo_tree_a)) app_ids \<and>
      distinct (gp_urls_of demo_env demo_tree_a) \<and>
      set (gp_urls_of demo_env demo_tree_a) = set (hrefs_of demo_tree_a))"
proof -
  have 1: "get_url_file_name demo_env ''https://play.google.com/sitemaps/a.xml.gz'' = Inr ''a.xml.gz''"
    by code_simp
  have 2: "urlopen_read demo_env ''https://play.google.com/sitemaps/a.xml.gz'' = Inr ''gz:a''"
    "gzip_decompress demo_env ''gz:a'' = Inr ''xml:a''"
    "etree_fromstring demo_env ''xml:a'' = Inr demo_tree_a"
    by (simp_all add: demo_env_def)
  have 3: "fetch_app_ids_task demo_env ''https://play.google.com/sitemaps/a.xml.gz'' ''cache'' [(''cache'', Dir)] =
     (Inr True, [(''cache'', Dir), (''cache/a.xml.gz.txt'', File (record_text [''a.app'', ''b.app'']))])"
    by code_simp
  from shard_record_order [OF demo_set_order_ok 1 2 3] demo_set_order_ok 3
  show ?thesis by blast
qed


text \<open>
  Claim C5 as stated fails at the sample shard \<open>a\<close>: extracted in the order of the
  document the identifiers are \<open>b.app\<close>, \<open>a.app\<close>, \<open>b.app\<close>; the record holds
  \<open>a.app\<close>, \<open>b.app\<close>.
\<close>

theorem shard_record_order_counterexample:
  "spec_extraction_order demo_env demo_tree_a = Inr [''b.app'', ''a.app'', ''b.app''] \<and>
   urlopen_read demo_env ''https://play.google.com/sitemaps/a.xml.gz'' = Inr ''gz:a'' \<and>
   gzip_decompress demo_env ''gz:a'' = Inr ''xml:a'' \<and>
   etree_fromstring demo_env ''xml:a'' = Inr demo_tree_a \<and>
   fetch_app_ids_task demo_env ''https://play.google.com/sitemaps/a.xml.gz'' ''cache'' [(''cache'', Dir)] =
     (Inr True, [(''cache'', Dir), (''cache/a.xml.gz.txt'', File (record_text [''a.app'', ''b.app'']))]) \<and>
   record_text [''a.app'', ''b.app''] \<noteq> record_text [''b.app'', ''a.app'', ''b.app'']"
  by code_simp


text \<open>
  Claim C6. If a shard, fetched from a URL that \<open>urlparse\<close> accepts, contains a hyperlink
  with the product-page prefix and no \<open>id\<close> query parameter, then \<open>fetch_app_ids_task\<close>
  returns \<open>False\<close> for the shard and no record of the shard is a file afterwards: the
  shard fails as a whole, whatever its other hyperlinks are.
\<close>

theorem malformed_entry_fails_shard:
  assumes name: "get_url_file_name env url = Inr name"
    and shard: "urlopen_read env url = Inr raw" "gzip_decompress env raw = Inr content"
      "etree_fromstring env content = Inr tree"
    and ok: "set_order_ok env"
    and h: "h \<in> set (hrefs_of tree)" "prefix ''https://play.google.com/store/apps'' h"
      "missing_id env h"
  shows "fst (fetch_app_ids_task env url d fs) = Inr False \<and>
         \<not> os_path_isfile (snd (fetch_app_ids_task env url d fs)) (os_path_join d (name @ ''.txt''))"
proof -
  let ?p = "os_path_join d (name @ ''.txt'')"
  from ok h(1) have "h \<in> set (gp_urls_of env tree)"
    by (simp add: set_order_ok_def gp_urls_of_def)
  with h(2) have "h \<in> set (filter (prefix ''https://play.google.com/store/apps'') (gp_urls_of env tree))"
    by simp
  from map_raising_Inl [of h _ "app_id env", OF this missing_id_KeyError [OF h(3)]]
  obtain e where "app_ids_of env (gp_urls_of env tree) = Inl e"
    by (auto simp: app_ids_of_def)
  with shard have "fetch_app_ids_try env url ?p fs = (Inl e, fs)"
    by (simp add: fetch_app_ids_try_def)
  with name have r: "fst (fetch_app_ids_task env url d fs) = Inr False"
    by (simp add: fetch_app_ids_task_def Let_def)
  then have "fetch_app_ids_task env url d fs = (Inr False, snd (fetch_app_ids_task env url d fs))"
    by (metis prod.collapse)
  from task_failure [OF name this]
  have "\<not> os_path_isfile (snd (fetch_app_ids_task env url d fs)) ?p"
    by (simp add: isfile_iff)
  with r show ?thesis by simp
qed


text \<open>The theorem at the sample shard \<open>m\<close>, which also holds a hyperlink with an \<open>id\<close>.\<close>

theorem malformed_entry_fails_shard_witness:
  "missing_id demo_env ''https://play.google.com/store/apps/details?hl=en'' \<and>
   fst (fetch_app_ids_task demo_env ''https://play.google.com/sitemaps/m.xml.gz'' ''cache''
          [(''cache'', Dir)]) = Inr False \<and>
   \<not> os_path_isfile
       (snd (fetch_app_ids_task demo_env ''https://play.google.com/sitemaps/m.xml.gz'' ''cache''
          [(''cache'', Dir)]))
       (os_path_join ''cache'' (''m.xml.gz'' @ ''.txt''))"
proof -
  have 1: "get_url_file_name demo_env ''https://play.google.com/sitemaps/m.xml.gz'' = Inr ''m.xml.gz''"
    by code_simp
  have 2: "urlopen_read demo_env ''https://play.google.com/sitemaps/m.xml.gz'' = Inr ''gz:m''"
    "gzip_decompress demo_env ''gz:m'' = Inr ''xml:m''"
    "etree_fromstring demo_env ''xml:m'' = Inr demo_tree_m"
    by (simp_all add: demo_env_def)
  have 3: "''https://play.google.com/store/apps/details?hl=en'' \<in> set (hrefs_of demo_tree_m)"
    by code_simp
  have 4: "prefix ''https://play.google.com/store/apps'' ''https://play.google.com/store/apps/details?hl=en''"
    by simp
  have 5: "missing_id demo_env ''https://play.google.com/store/apps/details?hl=en''"
    by code_simp
  from malformed_entry_fails_shard [OF 1 2 demo_set_order_ok 3 4 5, of "''cache''" "[(''cache'', Dir)]"] 5
  show ?thesis by blast
qed

section \<open>Running the fetch tasks\<close>


lemma gather_Inr: "gather rs = Inr bs \<Longrightarrow> rs = map Inr bs"
  unfolding gather_def by (induction rs arbitrary: bs) (auto split: sum.splits)







section \<open>Skipping the shards that are done\<close>

lemma filter_raising_Inr:
  "filter_raising p xs = Inr ys \<Longrightarrow>
     (\<forall>x \<in> set xs. \<exists>b. p x = Inr b) \<and> ys = filter (\<lambda>x. p x = Inr True) xs"
  by (induction xs arbitrary: ys) (auto split: sum.splits if_splits)

lemma filter_raising_none:
  "\<forall>x \<in> set xs. p x = Inr False \<Longrightarrow> filter_raising p xs = Inr []"
  by (induction xs) auto

lemma is_record_name_key: "is_record_name (k @ ''.txt'') \<longleftrightarrow> k \<noteq> [] \<and> hd k \<noteq> CHR ''.''"
proof -
  have "suffix ''.txt'' (k @ ''.txt'')" by (rule suffixI) simp
  moreover have "prefix ''.'' (k @ ''.txt'') \<longleftrightarrow> k = [] \<or> hd k = CHR ''.''"
    by (cases k) auto
  ultimately show ?thesis by (auto simp: is_record_name_def)
qed

lemma record_key:
  assumes "is_record_name i"
  shows "take (length i - 4) i = k \<longleftrightarrow> i = k @ ''.txt''"
proof -
  from assms obtain k' where "i = k' @ ''.txt''" by (auto simp: is_record_name_def suffix_def)
  then show ?thesis by auto
qed

lemma record_names_iff:
  assumes "os_listdir fs d = Inr names"
  shows "\<exists>keys. record_names fs d = Inr keys \<and>
           (\<forall>k. k \<in> set keys \<longleftrightarrow> k @ ''.txt'' \<in> set names \<and> is_record_name (k @ ''.txt''))"
proof -
  let ?keys = "map (\<lambda>i. take (length i - 4) i) (filter is_record_name names)"
  have "k \<in> set ?keys \<longleftrightarrow> k @ ''.txt'' \<in> set names \<and> is_record_name (k @ ''.txt'')" for k
  proof
    assume "k \<in> set ?keys"
    then obtain i where i: "i \<in> set names" "is_record_name i" "take (length i - 4) i = k" by auto
    from record_key [OF i(2), of k] i(3) have "i = k @ ''.txt''" by simp
    with i show "k @ ''.txt'' \<in> set names \<and> is_record_name (k @ ''.txt'')" by simp
  next
    assume "k @ ''.txt'' \<in> set names \<and> is_record_name (k @ ''.txt'')"
    then have "k @ ''.txt'' \<in> set (filter is_record_name names)" by simp
    then have "(\<lambda>i. take (length i - 4) i) (k @ ''.txt'')
        \<in> (\<lambda>i. take (length i - 4) i) ` set (filter is_record_name names)"
      by (rule imageI)
    then show "k \<in> set ?keys" by simp
  qed
  then show ?thesis using assms by (simp add: record_names_def)
qed

lemma listed_record:
  assumes names: "os_listdir fs d = Inr names"
    and k: "CHR ''/'' \<notin> set k"
    and p: "os_path_join d (k @ ''.txt'') \<in> fst ` set fs"
  shows "k @ ''.txt'' \<in> set names"
  using listdir_names(1) [OF names] k p by simp

lemma name_no_sep: "get_url_file_name env u = Inr k \<Longrightarrow> CHR ''/'' \<notin> set k"
  by (auto simp: get_url_file_name_def basename_no_sep split: sum.splits)

lemma checking_records_isdir:
  assumes dir: "os_path_isdir fs d"
    and pend: "checking_records env urls d fs = Inr pending"
  shows "\<exists>names keys. os_listdir fs d = Inr names \<and> record_names fs d = Inr keys \<and>
           (\<forall>u \<in> set urls. \<exists>k. get_url_file_name env u = Inr k) \<and>
           (\<forall>u k. get_url_file_name env u = Inr k \<longrightarrow>
              (u \<in> set pending \<longleftrightarrow> u \<in> set urls \<and> k \<notin> set keys))"
proof -
  from dir obtain names where names: "os_listdir fs d = Inr names" by (simp add: os_listdir_def)
  then obtain keys where keys: "record_names fs d = Inr keys" by (simp add: record_names_def)
  let ?p = "\<lambda>i. case get_url_file_name env i of Inl e \<Rightarrow> Inl e | Inr n \<Rightarrow> Inr (n \<notin> set keys)"
  from pend dir keys have "filter_raising ?p urls = Inr pending"
    by (simp add: checking_records_def)
  from filter_raising_Inr [OF this]
  have all: "\<forall>x \<in> set urls. \<exists>b. ?p x = Inr b" and pending: "pending = filter (\<lambda>x. ?p x = Inr True) urls"
    by auto
  have 1: "\<forall>u \<in> set urls. \<exists>k. get_url_file_name env u = Inr k"
  proof
    fix u assume "u \<in> set urls"
    with all obtain b where "?p u = Inr b" by blast
    then show "\<exists>k. get_url_file_name env u = Inr k"
      by (cases "get_url_file_name env u") simp_all
  qed
  have 2: "u \<in> set pending \<longleftrightarrow> u \<in> set urls \<and> k \<notin> set keys" if "get_url_file_name env u = Inr k" for u k
    using that by (simp add: pending)
  from names keys 1 2 show ?thesis by blast
qed

lemma checking_records_empty:
  assumes dir: "os_path_isdir fs d"
    and names: "os_listdir fs d = Inr names"
    and all: "\<forall>u \<in> set urls. \<exists>k. get_url_file_name env u = Inr k \<and>
                k @ ''.txt'' \<in> set names \<and> is_record_name (k @ ''.txt'')"
  shows "checking_records env urls d fs = Inr []"
proof -
  from record_names_iff [OF names] obtain keys where keys: "record_names fs d = Inr keys"
    and iff: "\<And>k. k \<in> set keys \<longleftrightarrow> k @ ''.txt'' \<in> set names \<and> is_record_name (k @ ''.txt'')"
    by blast
  let ?p = "\<lambda>i. case get_url_file_name env i of Inl e \<Rightarrow> Inl e | Inr n \<Rightarrow> Inr (n \<notin> set keys)"
  from all iff have "\<forall>u \<in> set urls. ?p u = Inr False" by fastforce
  then have "filter_raising ?p urls = Inr []" by (rule filter_raising_none)
  with dir keys show ?thesis by (simp add: checking_records_def)
qed

lemma isdir_update:
  assumes "p \<noteq> strip_trailing_sep d"
  shows "os_path_isdir (AList.update p v fs) d = os_path_isdir fs d"
  using assms by (simp add: os_path_isdir_def update_conv')

lemma target_neq_dir:
  assumes "CHR ''/'' \<notin> set k"
  shows "os_path_join d (k @ ''.txt'') \<noteq> strip_trailing_sep d"
proof (rule join_neq_strip)
  show "k @ ''.txt'' \<noteq> []" by simp
  from assms show "\<not> prefix ''/'' (k @ ''.txt'')" by (cases k) auto
qed

lemma run_tasks_all_success:
  assumes "fst (run_tasks env us d fs) = map Inr bs" and "False \<notin> set bs"
    and "\<forall>u \<in> set us. \<exists>k. get_url_file_name env u = Inr k"
  shows "fst ` set fs \<subseteq> fst ` set (snd (run_tasks env us d fs)) \<and>
         (\<forall>u \<in> set us. \<forall>k. get_url_file_name env u = Inr k \<longrightarrow>
            os_path_join d (k @ ''.txt'') \<in> fst ` set (snd (run_tasks env us d fs))) \<and>
         (os_path_isdir fs d \<longrightarrow> os_path_isdir (snd (run_tasks env us d fs)) d)"
  using assms
proof (induction us arbitrary: fs bs)
  case Nil
  then show ?case by simp
next
  case (Cons u us)
  obtain r fs1 where t: "fetch_app_ids_task env u d fs = (r, fs1)" by force
  from Cons.prems(3) obtain k where k: "get_url_file_name env u = Inr k" by auto
  from Cons.prems(1) t obtain b bs' where bs: "bs = b # bs'" "r = Inr b"
    "fst (run_tasks env us d fs1) = map Inr bs'"
    by (cases bs) (auto simp: case_prod_beta)
  with Cons.prems(2) have b: "b = True" and bs': "False \<notin> set bs'" by auto
  from task_success [OF k, of d fs fs1] t bs(2) b obtain app_ids where
    fs1: "fs1 = AList.update (os_path_join d (k @ ''.txt'')) (File (record_text app_ids)) fs"
    by auto
  have keys1: "fst ` set fs1 = insert (os_path_join d (k @ ''.txt'')) (fst ` set fs)"
    by (simp add: fs1 dom_update)
  have dir1: "os_path_isdir fs1 d = os_path_isdir fs d"
    unfolding fs1 by (rule isdir_update) (rule target_neq_dir [OF name_no_sep [OF k]])
  from Cons.IH [OF bs(3) bs'] Cons.prems(3)
  have IH: "fst ` set fs1 \<subseteq> fst ` set (snd (run_tasks env us d fs1))"
    "\<forall>u \<in> set us. \<forall>k. get_url_file_name env u = Inr k \<longrightarrow>
        os_path_join d (k @ ''.txt'') \<in> fst ` set (snd (run_tasks env us d fs1))"
    "os_path_isdir fs1 d \<longrightarrow> os_path_isdir (snd (run_tasks env us d fs1)) d"
    by auto
  have snd: "snd (run_tasks env (u # us) d fs) = snd (run_tasks env us d fs1)"
    using t by (simp add: case_prod_beta)
  show ?case
    unfolding snd using IH keys1 dir1 k by auto
qed
lemma run_fetch_all_done:
  assumes "run_fetch_app_ids_tasks env us d fs = (Inr (AllTasksDone n), fs')"
  shows "\<exists>bs. fst (run_tasks env us d fs) = map Inr bs \<and> False \<notin> set bs \<and>
              fs' = snd (run_tasks env us d fs)"
proof -
  from assms obtain bs where g: "gather (fst (run_tasks env us d fs)) = Inr bs"
    and r: "(if count_list bs False > 0 then FailedTasks (count_list bs False)
             else AllTasksDone (length us)) = AllTasksDone n"
    and fs': "fs' = snd (run_tasks env us d fs)"
    by (auto simp: run_fetch_app_ids_tasks_def case_prod_beta Let_def split: sum.splits)
  from r have "count_list bs False = 0" by (simp split: if_splits)
  then have "False \<notin> set bs" by (simp add: count_list_0_iff)
  with gather_Inr [OF g] fs' show ?thesis by blast
qed

lemma isfile_key: "os_path_isfile fs p \<Longrightarrow> p \<in> fst ` set fs"
  by (auto simp: isfile_iff dest!: map_of_SomeD intro: rev_image_eqI)


text \<open>
  Claim C2, amended. Where the cache directory exists, a URL whose name is not empty, does
  not start with a dot and has a record file in the cache directory is left out of the
  URLs to fetch. Consequently, when every fetch of a run has succeeded and no fetched
  name is empty or starts with a dot, a second run with the same URLs has nothing to fetch.
\<close>

theorem completed_shards_skipped:
  assumes dir: "os_path_isdir fs d"
    and pend: "checking_records env urls d fs = Inr pending"
  shows "(\<forall>u k. get_url_file_name env u = Inr k \<and> k \<noteq> [] \<and> hd k \<noteq> CHR ''.'' \<and>
            os_path_isfile fs (os_path_join d (k @ ''.txt'')) \<longrightarrow> u \<notin> set pending) \<and>
         (\<forall>rep fs'. fetching_app_ids env pending d fs = (Inr rep, fs') \<and>
             (rep = None \<or> (\<exists>n. rep = Some (AllTasksDone n))) \<and>
             (\<forall>u \<in> set pending. \<forall>k. get_url_file_name env u = Inr k \<longrightarrow> k \<noteq> [] \<and> hd k \<noteq> CHR ''.'') \<longrightarrow>
             checking_records env urls d fs' = Inr [])"
proof -
  from checking_records_isdir [OF dir pend] obtain names keys where
    names: "os_listdir fs d = Inr names" and keys: "record_names fs d = Inr keys"
    and parse: "\<forall>u \<in> set urls. \<exists>k. get_url_file_name env u = Inr k"
    and pending: "\<And>u k. get_url_file_name env u = Inr k \<Longrightarrow>
        (u \<in> set pending \<longleftrightarrow> u \<in> set urls \<and> k \<notin> set keys)"
    by blast
  from record_names_iff [OF names] keys
  have keys_iff: "\<And>k. k \<in> set keys \<longleftrightarrow> k @ ''.txt'' \<in> set names \<and> is_record_name (k @ ''.txt'')"
    by auto
  have a: "u \<notin> set pending"
    if "get_url_file_name env u = Inr k" "k \<noteq> []" "hd k \<noteq> CHR ''.''"
      "os_path_isfile fs (os_path_join d (k @ ''.txt''))" for u k
  proof -
    from listed_record [OF names name_no_sep [OF that(1)] isfile_key [OF that(4)]]
    have "k @ ''.txt'' \<in> set names" .
    with that(2,3) have "k \<in> set keys" by (simp add: keys_iff is_record_name_key)
    with pending [OF that(1)] show ?thesis by simp
  qed
  have b: "checking_records env urls d fs' = Inr []"
    if run: "fetching_app_ids env pending d fs = (Inr rep, fs')"
      and rep: "rep = None \<or> (\<exists>n. rep = Some (AllTasksDone n))"
      and visible: "\<forall>u \<in> set pending. \<forall>k. get_url_file_name env u = Inr k \<longrightarrow> k \<noteq> [] \<and> hd k \<noteq> CHR ''.''"
    for rep fs'
  proof (cases "pending = []")
    case True
    with run have "fs' = fs" by (simp add: fetching_app_ids_def)
    with pend True show ?thesis by simp
  next
    case False
    let ?us = "sort (remdups pending)"
    from False run rep obtain n where
      "run_fetch_app_ids_tasks env ?us d fs = (Inr (AllTasksDone n), fs')"
      by (auto simp: fetching_app_ids_def split: prod.splits sum.splits)
    from run_fetch_all_done [OF this] obtain bs where
      bs: "fst (run_tasks env ?us d fs) = map Inr bs" "False \<notin> set bs"
      and fs': "fs' = snd (run_tasks env ?us d fs)"
      by blast
    have sub: "set pending \<subseteq> set urls"
    proof
      fix u assume u: "u \<in> set pending"
      show "u \<in> set urls"
      proof (rule ccontr)
        assume "u \<notin> set urls"
        moreover from pend dir keys have "set pending \<subseteq> set urls"
          by (auto simp: checking_records_def dest!: filter_raising_Inr)
        ultimately show False using u by blast
      qed
    qed
    with parse have parse': "\<forall>u \<in> set ?us. \<exists>k. get_url_file_name env u = Inr k" by auto
    from run_tasks_all_success [OF bs parse'] fs' dir
    have mono: "fst ` set fs \<subseteq> fst ` set fs'"
      and fetched: "\<forall>u \<in> set pending. \<forall>k. get_url_file_name env u = Inr k \<longrightarrow>
          os_path_join d (k @ ''.txt'') \<in> fst ` set fs'"
      and dir': "os_path_isdir fs' d"
      by auto
    from dir' obtain names' where names': "os_listdir fs' d = Inr names'"
      by (simp add: os_listdir_def)
    have "\<exists>k. get_url_file_name env u = Inr k \<and> k @ ''.txt'' \<in> set names' \<and>
        is_record_name (k @ ''.txt'')" if u: "u \<in> set urls" for u
    proof -
      from parse u obtain k where k: "get_url_file_name env u = Inr k" by blast
      show ?thesis
      proof (cases "u \<in> set pending")
        case True
        with fetched k have "os_path_join d (k @ ''.txt'') \<in> fst ` set fs'" by blast
        from listed_record [OF names' name_no_sep [OF k] this]
        have "k @ ''.txt'' \<in> set names'" .
        moreover from visible True k have "is_record_name (k @ ''.txt'')"
          by (simp add: is_record_name_key)
        ultimately show ?thesis using k by blast
      next
        case False
        with pending [OF k] u have "k \<in> set keys" by simp
        then have in_names: "k @ ''.txt'' \<in> set names" and rec: "is_record_name (k @ ''.txt'')"
          by (simp_all add: keys_iff)
        from in_names listdir_names(1) [OF names]
        have "os_path_join d (k @ ''.txt'') \<in> fst ` set fs" by simp
        with mono have "os_path_join d (k @ ''.txt'') \<in> fst ` set fs'" by blast
        from listed_record [OF names' name_no_sep [OF k] this] rec k show ?thesis by blast
      qed
    qed
    then have "\<forall>u \<in> set urls. \<exists>k. get_url_file_name env u = Inr k \<and>
        k @ ''.txt'' \<in> set names' \<and> is_record_name (k @ ''.txt'')" by blast
    from checking_records_empty [OF dir' names' this] show ?thesis .
  qed
  from a b show ?thesis by blast
qed

text \<open>The theorem at the sample shard \<open>a\<close>, fetched into an empty cache directory.\<close>

theorem completed_shards_skipped_witness:
  "os_path_isdir [(''cache'', Dir)] ''cache'' \<and>
   checking_records demo_env [''https://play.google.com/sitemaps/a.xml.gz''] ''cache'' [(''cache'', Dir)] =
     Inr [''https://play.google.com/sitemaps/a.xml.gz''] \<and>
   fetching_app_ids demo_env [''https://play.google.com/sitemaps/a.xml.gz''] ''cache'' [(''cache'', Dir)] =
     (Inr (Some (AllTasksDone 1)),
      [(''cache'', Dir), (''cache/a.xml.gz.txt'', File (record_text [''a.app'', ''b.app'']))]) \<and>
   checking_records demo_env [''https://play.google.com/sitemaps/a.xml.gz''] ''cache''
     [(''cache'', Dir), (''cache/a.xml.gz.txt'', File (record_text [''a.app'', ''b.app'']))] = Inr []"
proof -
  let ?u = "''https://play.google.com/sitemaps/a.xml.gz''"
  let ?fs' = "[(''cache'', Dir), (''cache/a.xml.gz.txt'', File (record_text [''a.app'', ''b.app'']))]"
  have 1: "os_path_isdir [(''cache'', Dir)] ''cache''" by code_simp
  have 2: "checking_records demo_env [?u] ''cache'' [(''cache'', Dir)] = Inr [?u]" by code_simp
  have 3: "fetching_app_ids demo_env [?u] ''cache'' [(''cache'', Dir)] = (Inr (Some (AllTasksDone 1)), ?fs')"
    by code_simp
  have 4: "get_url_file_name demo_env ?u = Inr ''a.xml.gz''" by code_simp
  have 5: "\<forall>u \<in> set [?u]. \<forall>k. get_url_file_name demo_env u = Inr k \<longrightarrow> k \<noteq> [] \<and> hd k \<noteq> CHR ''.''"
    using 4 by auto
  from completed_shards_skipped [OF 1 2] 3 5
  have "checking_records demo_env [?u] ''cache'' ?fs' = Inr []" by blast
  with 1 2 3 show ?thesis by blast
qed


text \<open>
  Claim C2 as stated fails at a URL whose name starts with a dot: its fetch succeeds and
  its record is a file of the cache directory, and the next run fetches it again.
\<close>

theorem hidden_record_counterexample:
  "get_url_file_name demo_env ''https://play.google.com/sitemaps/.h.xml.gz'' = Inr ''.h.xml.gz'' \<and>
   checking_records demo_env [''https://play.google.com/sitemaps/.h.xml.gz''] ''cache'' [(''cache'', Dir)] =
     Inr [''https://play.google.com/sitemaps/.h.xml.gz''] \<and>
   fetching_app_ids demo_env [''https://play.google.com/sitemaps/.h.xml.gz''] ''cache'' [(''cache'', Dir)] =
     (Inr (Some (AllTasksDone 1)),
      [(''cache'', Dir), (''cache/.h.xml.gz.txt'', File (record_text [''a.app'', ''b.app'']))]) \<and>
   os_path_isfile [(''cache'', Dir), (''cache/.h.xml.gz.txt'', File (record_text [''a.app'', ''b.app'']))]
     (os_path_join ''cache'' (''.h.xml.gz'' @ ''.txt'')) \<and>
   checking_records demo_env [''https://play.google.com/sitemaps/.h.xml.gz''] ''cache''
     [(''cache'', Dir), (''cache/.h.xml.gz.txt'', File (record_text [''a.app'', ''b.app'']))] =
     Inr [''https://play.google.com/sitemaps/.h.xml.gz'']"
  by code_simp

section \<open>The counts of a run\<close>





section \<open>Merging the records\<close>



lemma concat_loop_writes:
  "\<exists>t. snd (concat_loop env fs out files acc) = AList.update out (File t) fs"
  by (induction files arbitrary: acc) (auto split: sum.splits option.splits)

lemma concat_loop_cong:
  assumes "\<forall>q \<in> set files. map_of fsA q = map_of fsB q"
  shows "fst (concat_loop env fsA out files acc) = fst (concat_loop env fsB out files acc) \<and>
         map_of (snd (concat_loop env fsA out files acc)) out =
           map_of (snd (concat_loop env fsB out files acc)) out"
  using assms
  by (induction files arbitrary: acc)
     (auto simp: open_r_read_def update_conv' split: sum.splits option.splits node.splits if_splits)

lemma map_join:
  assumes "\<forall>n \<in> set ns. CHR ''/'' \<notin> set n"
  shows "map (os_path_join d) ns = map ((@) (os_path_join d [])) ns"
proof (rule map_cong)
  show "ns = ns" ..
  fix n assume "n \<in> set ns"
  with assms have "CHR ''/'' \<notin> set n" by simp
  then show "os_path_join d n = os_path_join d [] @ n"
    by (intro join_append no_sep_not_prefix)
qed

lemma all_app_ids_files_sorted:
  assumes "os_listdir fs d = Inr names"
  shows "all_app_ids_files fs d =
           Inr (map (os_path_join d) (sort (filter is_record_name names)))"
proof -
  from listdir_names(1) [OF assms] have sep: "\<forall>n \<in> set names. CHR ''/'' \<notin> set n" by simp
  then have "sort (map (os_path_join d) (filter is_record_name names)) =
      sort (map ((@) (os_path_join d [])) (filter is_record_name names))"
    by (simp add: map_join)
  also have "\<dots> = map ((@) (os_path_join d [])) (sort (filter is_record_name names))"
    by (rule sort_map_append)
  also have "\<dots> = map (os_path_join d) (sort (filter is_record_name names))"
    using sep by (simp add: map_join)
  finally show ?thesis using assms by (simp add: all_app_ids_files_def)
qed








text \<open>
  Claim C4, amended. The merge opens the output path itself for writing: there is no
  temporary path and no rename. When the output is not yet a regular file and both the
  listing of the cache directory and the open succeed, the output path is a regular file
  after the merge, whether the merge went on to succeed or to fail, and the next merge
  finds it and returns at once, leaving it as it is. Only a failure of the listing or of
  the open leaves the file system as it was.
\<close>

theorem merge_writes_output_in_place:
  assumes nofile: "\<not> os_path_isfile fs out"
  shows "(\<forall>names fs1. os_listdir fs d = Inr names \<and> open_w fs out = Inr fs1 \<longrightarrow>
            os_path_isfile (snd (combining_app_ids env d out fs)) out \<and>
            combining_app_ids env d out (snd (combining_app_ids env d out fs)) =
              (Inr (), snd (combining_app_ids env d out fs))) \<and>
         (\<forall>e. os_listdir fs d = Inl e \<or> open_w fs out = Inl e \<longrightarrow>
            (\<exists>e'. combining_app_ids env d out fs = (Inl e', fs)))"
proof (intro conjI allI impI)
  fix names fs1
  assume a: "os_listdir fs d = Inr names \<and> open_w fs out = Inr fs1"
  then have files: "all_app_ids_files fs d = Inr (map (os_path_join d) (sort (filter is_record_name names)))"
    by (simp add: all_app_ids_files_sorted)
  let ?files = "map (os_path_join d) (sort (filter is_record_name names))"
  from nofile a files have r: "combining_app_ids env d out fs = concat_loop env fs1 out ?files []"
    by (simp add: combining_app_ids_def concat_all_app_ids_def)
  from concat_loop_writes [of env fs1 out ?files "[]"] obtain t where
    "snd (concat_loop env fs1 out ?files []) = AList.update out (File t) fs1" by blast
  with r have "map_of (snd (combining_app_ids env d out fs)) out = Some (File t)"
    by (simp add: update_conv')
  then show isf: "os_path_isfile (snd (combining_app_ids env d out fs)) out"
    by (simp add: isfile_iff)
  then show "combining_app_ids env d out (snd (combining_app_ids env d out fs)) =
      (Inr (), snd (combining_app_ids env d out fs))"
    by (simp add: combining_app_ids_def)
next
  fix e assume "os_listdir fs d = Inl e \<or> open_w fs out = Inl e"
  with nofile show "\<exists>e'. combining_app_ids env d out fs = (Inl e', fs)"
    by (auto simp: combining_app_ids_def concat_all_app_ids_def all_app_ids_files_def split: sum.splits)
qed


text \<open>The theorem where the second write fails: the output keeps the text written before.\<close>

theorem merge_writes_output_in_place_witness:
  "\<not> os_path_isfile [(''cache'', Dir), (''cache/a.txt'', File ''1;''), (''cache/b.txt'', File ''2;'')] ''out.txt'' \<and>
   os_path_isfile
     (snd (combining_app_ids (demo_env\<lparr>write_fault := \<lambda>p s. if s = ''2;'' then Some ''2'' else None\<rparr>)
        ''cache'' ''out.txt'' [(''cache'', Dir), (''cache/a.txt'', File ''1;''), (''cache/b.txt'', File ''2;'')]))
     ''out.txt'' \<and>
   combining_app_ids (demo_env\<lparr>write_fault := \<lambda>p s. if s = ''2;'' then Some ''2'' else None\<rparr>)
     ''cache'' ''out.txt'' [(''cache'', Dir), (''cache/a.txt'', File ''1;''), (''cache/b.txt'', File ''2;'')] =
     (Inl OSError, [(''cache'', Dir), (''cache/a.txt'', File ''1;''), (''cache/b.txt'', File ''2;''),
        (''out.txt'', File ''1;2'')])"
proof -
  let ?fs = "[(''cache'', Dir), (''cache/a.txt'', File ''1;''), (''cache/b.txt'', File ''2;'')]"
  let ?env = "demo_env\<lparr>write_fault := \<lambda>p s. if s = ''2;'' then Some ''2'' else None\<rparr>"
  have 1: "\<not> os_path_isfile ?fs ''out.txt''" by code_simp
  have 2: "os_listdir ?fs ''cache'' = Inr [''a.txt'', ''b.txt'']" by code_simp
  have 3: "open_w ?fs ''out.txt'' = Inr (AList.update ''out.txt'' (File []) ?fs)" by code_simp
  have 4: "combining_app_ids ?env ''cache'' ''out.txt'' ?fs =
     (Inl OSError, [(''cache'', Dir), (''cache/a.txt'', File ''1;''), (''cache/b.txt'', File ''2;''),
        (''out.txt'', File ''1;2'')])" by code_simp
  from merge_writes_output_in_place [OF 1, of "''cache''" ?env] 2 3
  have "os_path_isfile (snd (combining_app_ids ?env ''cache'' ''out.txt'' ?fs)) ''out.txt''" by blast
  with 1 4 show ?thesis by blast
qed


text \<open>
  Claim C4 as stated fails where a record cannot be read (a directory named as a record):
  the merge raises, the output path holds the text of the records before it, and after the
  cause is removed the next merge returns success without completing the output.
\<close>

theorem merge_partial_output_counterexample:
  "combining_app_ids demo_env ''cache'' ''out.txt''
     [(''cache'', Dir), (''cache/a.txt'', File ''1;''), (''cache/b.txt'', Dir), (''cache/c.txt'', File ''3;'')] =
     (Inl OSError,
      [(''cache'', Dir), (''cache/a.txt'', File ''1;''), (''cache/b.txt'', Dir), (''cache/c.txt'', File ''3;''),
       (''out.txt'', File ''1;'')]) \<and>
   os_path_isfile
     [(''cache'', Dir), (''cache/a.txt'', File ''1;''), (''cache/b.txt'', Dir), (''cache/c.txt'', File ''3;''),
      (''out.txt'', File ''1;'')] ''out.txt'' \<and>
   combining_app_ids demo_env ''cache'' ''out.txt''
     [(''cache'', Dir), (''cache/a.txt'', File ''1;''), (''cache/c.txt'', File ''3;''),
      (''out.txt'', File ''1;'')] =
     (Inr (),
      [(''cache'', Dir), (''cache/a.txt'', File ''1;''), (''cache/c.txt'', File ''3;''),
       (''out.txt'', File ''1;'')])"
  by code_simp


text \<open>
  Claim C8, amended. For every cache directory and output path, if the output path is a
  regular file then the merge returns success at once and the file system, the output file
  included, is as it was, whatever the cache directory holds.
\<close>

theorem merge_skipped_when_output_is_file:
  assumes "os_path_isfile fs out"
  shows "combining_app_ids env d out fs = (Inr (), fs)"
  using assms by (simp add: combining_app_ids_def)


text \<open>The theorem at an output file left by an earlier run.\<close>

theorem merge_skipped_when_output_is_file_witness:
  "os_path_isfile [(''cache'', Dir), (''cache/a.txt'', File ''1;''), (''out.txt'', File ''old'')] ''out.txt'' \<and>
   combining_app_ids demo_env ''cache'' ''out.txt''
     [(''cache'', Dir), (''cache/a.txt'', File ''1;''), (''out.txt'', File ''old'')] =
     (Inr (), [(''cache'', Dir), (''cache/a.txt'', File ''1;''), (''out.txt'', File ''old'')])"
proof -
  have 1: "os_path_isfile [(''cache'', Dir), (''cache/a.txt'', File ''1;''), (''out.txt'', File ''old'')] ''out.txt''"
    by code_simp
  from merge_skipped_when_output_is_file [OF 1] 1 show ?thesis by blast
qed


text \<open>
  Claim C8 as stated fails where the output path exists as a directory: the merge is
  attempted and raises when it opens the path for writing.
\<close>

theorem merge_output_directory_counterexample:
  "os_path_exists [(''cache'', Dir), (''cache/a.txt'', File ''1;''), (''out.txt'', Dir)] ''out.txt'' \<and>
   combining_app_ids demo_env ''cache'' ''out.txt''
     [(''cache'', Dir), (''cache/a.txt'', File ''1;''), (''out.txt'', Dir)] =
     (Inl OSError, [(''cache'', Dir), (''cache/a.txt'', File ''1;''), (''out.txt'', Dir)])"
  by code_simp

section \<open>Entries that are not records\<close>

lemma map_filter_keys:
  "List.map_filter (\<lambda>(q, _). child_name d q) fs = List.map_filter (child_name d) (map fst fs)"
  by (induction fs) (auto simp: List.map_filter_def)

lemma map_filter_append: "List.map_filter f (xs @ ys) = List.map_filter f xs @ List.map_filter f ys"
  by (simp add: List.map_filter_def)

lemma record_listing_update:
  assumes n: "n \<noteq> []" "CHR ''/'' \<notin> set n" "\<not> is_record_name n"
  shows "filter is_record_name
           (remdups (List.map_filter (\<lambda>(q, _). child_name d q) (AList.update (os_path_join d n) v fs))) =
         filter is_record_name (remdups (List.map_filter (\<lambda>(q, _). child_name d q) fs))"
proof (cases "os_path_join d n \<in> set (map fst fs)")
  case True
  then show ?thesis by (simp add: map_filter_keys update_keys)
next
  case False
  from n(1,2) have "child_name d (os_path_join d n) = Some n" by (simp add: child_name_join)
  then have "List.map_filter (child_name d) [os_path_join d n] = [n]"
    by (simp add: List.map_filter_def)
  with False have "List.map_filter (\<lambda>(q, _). child_name d q) (AList.update (os_path_join d n) v fs) =
      List.map_filter (\<lambda>(q, _). child_name d q) fs @ [n]"
    by (simp add: map_filter_keys update_keys map_filter_append)
  then have "filter is_record_name
           (remdups (List.map_filter (\<lambda>(q, _). child_name d q) (AList.update (os_path_join d n) v fs))) =
      remdups (filter is_record_name (List.map_filter (\<lambda>(q, _). child_name d q) fs @ [n]))"
    by (simp only: remdups_filter)
  also have "\<dots> = remdups (filter is_record_name (List.map_filter (\<lambda>(q, _). child_name d q) fs))"
    using n(3) by simp
  also have "\<dots> = filter is_record_name (remdups (List.map_filter (\<lambda>(q, _). child_name d q) fs))"
    by (simp only: remdups_filter)
  finally show ?thesis .
qed

lemma isdir_update_file:
  assumes "map_of fs p \<noteq> Some Dir"
  shows "os_path_isdir (AList.update p (File c) fs) q = os_path_isdir fs q"
  using assms by (auto simp: os_path_isdir_def update_conv')

lemma isfile_update_other: "q \<noteq> p \<Longrightarrow> os_path_isfile (AList.update p v fs) q = os_path_isfile fs q"
  by (simp add: isfile_iff update_conv')

lemma all_app_ids_files_set:
  assumes "all_app_ids_files fs d = Inr files" and "q \<in> set files"
  shows "\<exists>m. q = os_path_join d m \<and> is_record_name m \<and> CHR ''/'' \<notin> set m"
proof -
  from assms(1) obtain names where names: "os_listdir fs d = Inr names"
    and files: "files = sort (map (os_path_join d) (filter is_record_name names))"
    by (auto simp: all_app_ids_files_def split: sum.splits)
  from assms(2) files obtain m where m: "m \<in> set names" "is_record_name m" "q = os_path_join d m"
    by auto
  from m(1) listdir_names(1) [OF names] have "CHR ''/'' \<notin> set m" by simp
  with m show ?thesis by blast
qed


text \<open>
  Claim C10. A file of the cache directory whose name starts with a dot or does not end
  in \<open>.txt\<close> is ignored by the resume check and by the merge: adding it, or changing
  its text, changes neither the URLs left to fetch nor the result of the merge nor the
  merged output.
\<close>

theorem other_entries_ignored:
  assumes n: "n \<noteq> []" "CHR ''/'' \<notin> set n" "\<not> is_record_name n"
    and notdir: "map_of fs (os_path_join d n) \<noteq> Some Dir"
    and out: "out \<noteq> os_path_join d n"
  shows "checking_records env urls d (AList.update (os_path_join d n) (File c) fs) =
           checking_records env urls d fs \<and>
         fst (combining_app_ids env d out (AList.update (os_path_join d n) (File c) fs)) =
           fst (combining_app_ids env d out fs) \<and>
         map_of (snd (combining_app_ids env d out (AList.update (os_path_join d n) (File c) fs))) out =
           map_of (snd (combining_app_ids env d out fs)) out"
proof -
  let ?p = "os_path_join d n"
  let ?fs2 = "AList.update ?p (File c) fs"
  have dir: "os_path_isdir ?fs2 q = os_path_isdir fs q" for q
    by (rule isdir_update_file [OF notdir])
  have other: "map_of ?fs2 q = map_of fs q" if "q \<noteq> ?p" for q
    using that by (simp add: update_conv')
  have keys: "record_names ?fs2 d = record_names fs d"
    by (simp add: record_names_def os_listdir_def dir record_listing_update [OF n])
  have files: "all_app_ids_files ?fs2 d = all_app_ids_files fs d"
    by (simp add: all_app_ids_files_def os_listdir_def dir record_listing_update [OF n])
  have 1: "checking_records env urls d ?fs2 = checking_records env urls d fs"
    by (simp add: checking_records_def dir keys)
  have isf: "os_path_isfile ?fs2 out = os_path_isfile fs out"
    using out by (simp add: isfile_update_other)
  have 2: "fst (combining_app_ids env d out ?fs2) = fst (combining_app_ids env d out fs) \<and>
      map_of (snd (combining_app_ids env d out ?fs2)) out = map_of (snd (combining_app_ids env d out fs)) out"
  proof (cases "os_path_isfile fs out")
    case True
    with isf other [OF out] show ?thesis by (simp add: combining_app_ids_def)
  next
    case nofile: False
    show ?thesis
    proof (cases "all_app_ids_files fs d")
      case (Inl e)
      with nofile isf files other [OF out] show ?thesis
        by (simp add: combining_app_ids_def concat_all_app_ids_def)
    next
      case (Inr fl)
      show ?thesis
      proof (cases "open_w fs out")
        case (Inl e)
        then have "open_w ?fs2 out = Inl e"
          by (auto simp: open_w_def dir split: if_splits)
        with Inl Inr nofile isf files other [OF out] show ?thesis
          by (simp add: combining_app_ids_def concat_all_app_ids_def)
      next
        case op: (Inr fs1)
        then have fs1: "fs1 = AList.update out (File []) fs" by (rule open_w_Inr(1))
        from op have op2: "open_w ?fs2 out = Inr (AList.update out (File []) ?fs2)"
          by (auto simp: open_w_def dir split: if_splits)
        have "map_of (AList.update out (File []) ?fs2) q = map_of fs1 q" if "q \<in> set fl" for q
        proof -
          from all_app_ids_files_set [OF Inr that] obtain m where
            m: "q = os_path_join d m" "is_record_name m" "CHR ''/'' \<notin> set m" by blast
          from m(2) n(3) have "m \<noteq> n" by auto
          with join_inj [OF no_sep_not_prefix [OF m(3)] no_sep_not_prefix [OF n(2)], of d] m(1)
          have "q \<noteq> ?p" by auto
          then show ?thesis by (simp add: fs1 update_conv')
        qed
        then have "\<forall>q \<in> set fl. map_of (AList.update out (File []) ?fs2) q = map_of fs1 q" by blast
        from concat_loop_cong [OF this, of env out "[]"] op op2 Inr nofile isf files
        show ?thesis by (simp add: combining_app_ids_def concat_all_app_ids_def)
      qed
    qed
  qed
  from 1 2 show ?thesis by blast
qed


text \<open>The theorem for a hidden file and for a file with another extension.\<close>

theorem other_entries_ignored_witness:
  "\<not> is_record_name ''.hidden.txt'' \<and> \<not> is_record_name ''notes.md'' \<and>
   checking_records demo_env [''https://play.google.com/sitemaps/a.xml.gz''] ''cache''
     (AList.update (os_path_join ''cache'' ''.hidden.txt'') (File ''h'') [(''cache'', Dir), (''cache/b.txt'', File ''2;'')]) =
     checking_records demo_env [''https://play.google.com/sitemaps/a.xml.gz''] ''cache''
       [(''cache'', Dir), (''cache/b.txt'', File ''2;'')] \<and>
   map_of (snd (combining_app_ids demo_env ''cache'' ''out.txt''
     (AList.update (os_path_join ''cache'' ''.hidden.txt'') (File ''h'') [(''cache'', Dir), (''cache/b.txt'', File ''2;'')])))
     ''out.txt'' =
   map_of (snd (combining_app_ids demo_env ''cache'' ''out.txt'' [(''cache'', Dir), (''cache/b.txt'', File ''2;'')]))
     ''out.txt'' \<and>
   map_of (snd (combining_app_ids demo_env ''cache'' ''out.txt''
     (AList.update (os_path_join ''cache'' ''notes.md'') (File ''x'') [(''cache'', Dir), (''cache/b.txt'', File ''2;'')])))
     ''out.txt'' =
   map_of (snd (combining_app_ids demo_env ''cache'' ''out.txt'' [(''cache'', Dir), (''cache/b.txt'', File ''2;'')]))
     ''out.txt'' \<and>
   map_of (snd (combining_app_ids demo_env ''cache'' ''out.txt'' [(''cache'', Dir), (''cache/b.txt'', File ''2;'')]))
     ''out.txt'' = Some (File ''2;'')"
proof -
  let ?fs = "[(''cache'', Dir), (''cache/b.txt'', File ''2;'')]"
  have h: "''.hidden.txt'' \<noteq> []" "CHR ''/'' \<notin> set ''.hidden.txt''" "\<not> is_record_name ''.hidden.txt''"
    by code_simp+
  have m: "''notes.md'' \<noteq> []" "CHR ''/'' \<notin> set ''notes.md''" "\<not> is_record_name ''notes.md''"
    by code_simp+
  have hd: "map_of ?fs (os_path_join ''cache'' ''.hidden.txt'') \<noteq> Some Dir"
    and md: "map_of ?fs (os_path_join ''cache'' ''notes.md'') \<noteq> Some Dir"
    by code_simp+
  have ho: "''out.txt'' \<noteq> os_path_join ''cache'' ''.hidden.txt''"
    and mo: "''out.txt'' \<noteq> os_path_join ''cache'' ''notes.md''"
    by code_simp+
  have t: "map_of (snd (combining_app_ids demo_env ''cache'' ''out.txt'' ?fs)) ''out.txt'' = Some (File ''2;'')"
    by code_simp
  from other_entries_ignored [OF h hd ho, of demo_env "[''https://play.google.com/sitemaps/a.xml.gz'']" "''h''"]
    other_entries_ignored [OF m md mo, of demo_env "[''https://play.google.com/sitemaps/a.xml.gz'']" "''x''"]
    h(3) m(3) t
  show ?thesis by blast
qed

end
